theory Spec2Isabelle
  imports Main "HOL-Library.Word" "HOL-Library.List_Lexorder"
begin

unbundle bit_operations_syntax

section \<open>Cursor pagination: the codec and the page builder\<close>

text \<open>
  A shallow embedding of \<^verbatim>\<open>src/shared/utils/cursor-pagination.util.ts\<close> (class
  \<^verbatim>\<open>CursorPaginator\<close>: \<^verbatim>\<open>encode\<close>, \<^verbatim>\<open>decode\<close>, \<^verbatim>\<open>buildResult\<close>) and of
  \<^verbatim>\<open>src/domain/value-objects/cursor.vo.ts\<close> (class \<^verbatim>\<open>Cursor\<close>: \<^verbatim>\<open>encode\<close>,
  \<^verbatim>\<open>decode\<close> with its zod schema).

  The two classes call into the JavaScript runtime: \<^verbatim>\<open>JSON.stringify\<close>,
  \<^verbatim>\<open>JSON.parse\<close>, \<^verbatim>\<open>Buffer.from(s)\<close> (UTF-8), \<^verbatim>\<open>Buffer.from(s, 'base64url')\<close>,
  \<^verbatim>\<open>buf.toString('base64url')\<close>, \<^verbatim>\<open>buf.toString('utf-8')\<close>,
  \<^verbatim>\<open>Array.prototype.slice\<close> and \<^verbatim>\<open>Array.prototype.reverse\<close>. Each of them is
  given here as an executable function following ECMA-262, RFC 4648, the WHATWG UTF-8
  decoder and the Node.js documentation.
\<close>

subsection \<open>JavaScript strings and bytes\<close>

text \<open>
  A JavaScript string is a sequence of 16-bit UTF-16 code units; a \<^verbatim>\<open>Buffer\<close> is a
  sequence of bytes. \<open>lit\<close> writes an ASCII literal as code units.
\<close>

type_synonym byte = "8 word"
type_synonym jsstring = "16 word list"

definition lit :: "string \<Rightarrow> jsstring" where
  "lit s = map of_char s"

subsection \<open>Base64url: \<^verbatim>\<open>buf.toString('base64url')\<close> and \<^verbatim>\<open>Buffer.from(s, 'base64url')\<close>\<close>

text \<open>
  Encoding uses the URL-safe alphabet of RFC 4648 section 5 and writes no padding.
  \<open>base64_groups\<close> cuts the bytes into 6-bit groups, \<open>base64url_char\<close> is the
  alphabet \<^verbatim>\<open>A-Z a-z 0-9 - _\<close>.
\<close>

definition base64url_code :: "nat \<Rightarrow> nat" where
  "base64url_code n =
     (if n < 26 then 0x41 + n
      else if n < 52 then 0x61 + (n - 26)
      else if n < 62 then 0x30 + (n - 52)
      else if n = 62 then 0x2D
      else 0x5F)"

definition base64url_char :: "byte \<Rightarrow> 16 word" where
  "base64url_char s = of_nat (base64url_code (unat s))"

fun base64_groups :: "byte list \<Rightarrow> byte list" where
  "base64_groups (a # b # c # rest) =
     drop_bit 2 a
     # (push_bit 4 (a AND 0x03) OR drop_bit 4 b)
     # (push_bit 2 (b AND 0x0F) OR drop_bit 6 c)
     # (c AND 0x3F)
     # base64_groups rest"
| "base64_groups [a, b] =
     [drop_bit 2 a, push_bit 4 (a AND 0x03) OR drop_bit 4 b, push_bit 2 (b AND 0x0F)]"
| "base64_groups [a] = [drop_bit 2 a, push_bit 4 (a AND 0x03)]"
| "base64_groups [] = []"

definition base64url_encode :: "byte list \<Rightarrow> jsstring" where
  "base64url_encode bs = map base64url_char (base64_groups bs)"

text \<open>
  Decoding is Node's lenient decoder. It reads each code unit of the string through its
  low byte (\<^verbatim>\<open>static_cast<uint8_t>\<close>), accepts the standard and the URL-safe
  alphabet, skips every byte that belongs to neither, stops at the first \<^verbatim>\<open>=\<close>, and
  drops a final group that does not fill a byte. It never throws.
\<close>

definition low_byte :: "16 word \<Rightarrow> byte" where
  "low_byte c = ucast c"

definition base64_value :: "nat \<Rightarrow> nat option" where
  "base64_value c =
     (if 0x41 \<le> c \<and> c \<le> 0x5A then Some (c - 0x41)
      else if 0x61 \<le> c \<and> c \<le> 0x7A then Some (c - 0x61 + 26)
      else if 0x30 \<le> c \<and> c \<le> 0x39 then Some (c - 0x30 + 52)
      else if c = 0x2B \<or> c = 0x2D then Some 62
      else if c = 0x2F \<or> c = 0x5F then Some 63
      else None)"

definition unbase64 :: "16 word \<Rightarrow> byte option" where
  "unbase64 c = map_option of_nat (base64_value (unat (low_byte c)))"

fun base64_sextets :: "jsstring \<Rightarrow> byte list" where
  "base64_sextets [] = []"
| "base64_sextets (c # cs) =
     (case unbase64 c of
        Some s \<Rightarrow> s # base64_sextets cs
      | None \<Rightarrow> if low_byte c = 0x3D then [] else base64_sextets cs)"

fun base64_bytes :: "byte list \<Rightarrow> byte list" where
  "base64_bytes (s0 # s1 # s2 # s3 # rest) =
     (push_bit 2 s0 OR drop_bit 4 s1)
     # (push_bit 4 (s1 AND 0x0F) OR drop_bit 2 s2)
     # (push_bit 6 (s2 AND 0x03) OR s3)
     # base64_bytes rest"
| "base64_bytes [s0, s1, s2] =
     [push_bit 2 s0 OR drop_bit 4 s1, push_bit 4 (s1 AND 0x0F) OR drop_bit 2 s2]"
| "base64_bytes [s0, s1] = [push_bit 2 s0 OR drop_bit 4 s1]"
| "base64_bytes [s0] = []"
| "base64_bytes [] = []"

definition base64url_decode :: "jsstring \<Rightarrow> byte list" where
  "base64url_decode token = base64_bytes (base64_sextets token)"

subsection \<open>UTF-8: \<^verbatim>\<open>Buffer.from(s)\<close> and \<^verbatim>\<open>buf.toString('utf-8')\<close>\<close>

text \<open>
  The arithmetic of UTF-8 is written over the numeric values of code units and bytes.
  Encoding joins a surrogate pair into one code point of four bytes and replaces a lone
  surrogate by U+FFFD. Decoding follows the WHATWG decoder: an ill-formed sequence gives
  one U+FFFD for its maximal well-formed prefix and decoding resumes at the offending
  byte; overlong forms, surrogates and code points above U+10FFFF are ill-formed.
\<close>

definition is_high_surrogate :: "nat \<Rightarrow> bool" where
  "is_high_surrogate u = (0xD800 \<le> u \<and> u \<le> 0xDBFF)"

definition is_low_surrogate :: "nat \<Rightarrow> bool" where
  "is_low_surrogate u = (0xDC00 \<le> u \<and> u \<le> 0xDFFF)"

text \<open>A sequence of code units is well formed when every surrogate is part of a pair.\<close>

fun well_formed :: "nat list \<Rightarrow> bool" where
  "well_formed [] = True"
| "well_formed (u # us) =
     (if is_high_surrogate u then
        (case us of
           [] \<Rightarrow> False
         | l # us' \<Rightarrow> is_low_surrogate l \<and> well_formed us')
      else \<not> is_low_surrogate u \<and> well_formed us)"

definition utf8_of_code_point :: "nat \<Rightarrow> nat list" where
  "utf8_of_code_point cp =
     (if cp < 0x80 then [cp]
      else if cp < 0x800 then [0xC0 + cp div 0x40, 0x80 + cp mod 0x40]
      else if cp < 0x10000 then
        [0xE0 + cp div 0x1000, 0x80 + cp div 0x40 mod 0x40, 0x80 + cp mod 0x40]
      else
        [0xF0 + cp div 0x40000, 0x80 + cp div 0x1000 mod 0x40,
         0x80 + cp div 0x40 mod 0x40, 0x80 + cp mod 0x40])"

fun utf8_of_units :: "nat list \<Rightarrow> nat list" where
  "utf8_of_units [] = []"
| "utf8_of_units (u # us) =
     (if is_high_surrogate u then
        (case us of
           [] \<Rightarrow> utf8_of_code_point 0xFFFD
         | l # us' \<Rightarrow>
             if is_low_surrogate l
             then utf8_of_code_point (0x10000 + (u - 0xD800) * 0x400 + (l - 0xDC00))
                  @ utf8_of_units us'
             else utf8_of_code_point 0xFFFD @ utf8_of_units us)
      else if is_low_surrogate u then utf8_of_code_point 0xFFFD @ utf8_of_units us
      else utf8_of_code_point u @ utf8_of_units us)"

definition utf8_encode :: "jsstring \<Rightarrow> byte list" where
  "utf8_encode s = map of_nat (utf8_of_units (map unat s))"

definition is_continuation :: "nat \<Rightarrow> bool" where
  "is_continuation b = (0x80 \<le> b \<and> b \<le> 0xBF)"

definition units_of_code_point :: "nat \<Rightarrow> nat list" where
  "units_of_code_point cp =
     (if cp < 0x10000 then [cp]
      else [0xD800 + (cp - 0x10000) div 0x400, 0xDC00 + (cp - 0x10000) mod 0x400])"

definition second_lower :: "nat \<Rightarrow> nat" where
  "second_lower b = (if b = 0xE0 then 0xA0 else if b = 0xF0 then 0x90 else 0x80)"

definition second_upper :: "nat \<Rightarrow> nat" where
  "second_upper b = (if b = 0xED then 0x9F else if b = 0xF4 then 0x8F else 0xBF)"

fun units_of_utf8 :: "nat list \<Rightarrow> nat list" where
  "units_of_utf8 [] = []"
| "units_of_utf8 (b # bs) =
     (if b < 0x80 then b # units_of_utf8 bs
      else if 0xC2 \<le> b \<and> b \<le> 0xDF then
        (case bs of
           [] \<Rightarrow> [0xFFFD]
         | b1 # bs1 \<Rightarrow>
             if is_continuation b1
             then ((b - 0xC0) * 0x40 + (b1 - 0x80)) # units_of_utf8 bs1
             else 0xFFFD # units_of_utf8 bs)
      else if 0xE0 \<le> b \<and> b \<le> 0xEF then
        (case bs of
           [] \<Rightarrow> [0xFFFD]
         | b1 # bs1 \<Rightarrow>
             if second_lower b \<le> b1 \<and> b1 \<le> second_upper b then
               (case bs1 of
                  [] \<Rightarrow> [0xFFFD]
                | b2 # bs2 \<Rightarrow>
                    if is_continuation b2
                    then ((b - 0xE0) * 0x1000 + (b1 - 0x80) * 0x40 + (b2 - 0x80))
                         # units_of_utf8 bs2
                    else 0xFFFD # units_of_utf8 bs1)
             else 0xFFFD # units_of_utf8 bs)
      else if 0xF0 \<le> b \<and> b \<le> 0xF4 then
        (case bs of
           [] \<Rightarrow> [0xFFFD]
         | b1 # bs1 \<Rightarrow>
             if second_lower b \<le> b1 \<and> b1 \<le> second_upper b then
               (case bs1 of
                  [] \<Rightarrow> [0xFFFD]
                | b2 # bs2 \<Rightarrow>
                    if is_continuation b2 then
                      (case bs2 of
                         [] \<Rightarrow> [0xFFFD]
                       | b3 # bs3 \<Rightarrow>
                           if is_continuation b3
                           then units_of_code_point
                                  ((b - 0xF0) * 0x40000 + (b1 - 0x80) * 0x1000
                                   + (b2 - 0x80) * 0x40 + (b3 - 0x80))
                                @ units_of_utf8 bs3
                           else 0xFFFD # units_of_utf8 bs2)
                    else 0xFFFD # units_of_utf8 bs1)
             else 0xFFFD # units_of_utf8 bs)
      else 0xFFFD # units_of_utf8 bs)"

definition utf8_decode :: "byte list \<Rightarrow> jsstring" where
  "utf8_decode bs = map of_nat (units_of_utf8 (map unat bs))"

subsection \<open>JSON values\<close>

text \<open>
  What \<^verbatim>\<open>JSON.parse\<close> can return, and \<^verbatim>\<open>undefined\<close>, which reading an absent
  property gives. A number keeps its source text: the claims only compare values with
  string literals, and a number is never equal to one. The members of an object are in
  source order, duplicates included.
\<close>

datatype jsval =
    JUndefined
  | JNull
  | JBool bool
  | JNumber jsstring
  | JString jsstring
  | JArray "jsval list"
  | JObject "(jsstring \<times> jsval) list"

datatype exn = SyntaxError | TypeError | ZodError | StrategyError

subsection \<open>\<^verbatim>\<open>JSON.stringify\<close> of an object whose properties are strings\<close>

text \<open>
  \<open>QuoteJSONString\<close> is ECMA-262's operation of that name: the short escapes, a
  \<^verbatim>\<open>\uXXXX\<close> escape (lowercase hex) for the other control characters and for a lone
  surrogate, everything else (a surrogate pair too) unchanged.
\<close>

definition hex_digit :: "nat \<Rightarrow> 16 word" where
  "hex_digit n = of_nat (if n < 10 then 0x30 + n else 0x61 + (n - 10))"

definition unicode_escape :: "16 word \<Rightarrow> jsstring" where
  "unicode_escape u =
     [0x5C, 0x75,
      hex_digit (unat u div 0x1000 mod 0x10), hex_digit (unat u div 0x100 mod 0x10),
      hex_digit (unat u div 0x10 mod 0x10), hex_digit (unat u mod 0x10)]"

definition high_surrogate :: "16 word \<Rightarrow> bool" where
  "high_surrogate u = is_high_surrogate (unat u)"

definition low_surrogate :: "16 word \<Rightarrow> bool" where
  "low_surrogate u = is_low_surrogate (unat u)"

fun quote_chars :: "jsstring \<Rightarrow> jsstring" where
  "quote_chars [] = []"
| "quote_chars (u # us) =
     (if u = 0x08 then [0x5C, 0x62] @ quote_chars us
      else if u = 0x09 then [0x5C, 0x74] @ quote_chars us
      else if u = 0x0A then [0x5C, 0x6E] @ quote_chars us
      else if u = 0x0C then [0x5C, 0x66] @ quote_chars us
      else if u = 0x0D then [0x5C, 0x72] @ quote_chars us
      else if u = 0x22 then [0x5C, 0x22] @ quote_chars us
      else if u = 0x5C then [0x5C, 0x5C] @ quote_chars us
      else if u < 0x20 then unicode_escape u @ quote_chars us
      else if high_surrogate u then
        (case us of
           [] \<Rightarrow> unicode_escape u
         | l # us' \<Rightarrow>
             if low_surrogate l then u # l # quote_chars us'
             else unicode_escape u @ quote_chars us)
      else if low_surrogate u then unicode_escape u @ quote_chars us
      else u # quote_chars us)"

definition QuoteJSONString :: "jsstring \<Rightarrow> jsstring" where
  "QuoteJSONString s = [0x22] @ quote_chars s @ [0x22]"

fun stringify_members :: "(jsstring \<times> jsstring) list \<Rightarrow> jsstring" where
  "stringify_members [] = []"
| "stringify_members [(k, v)] = QuoteJSONString k @ [0x3A] @ QuoteJSONString v"
| "stringify_members ((k, v) # ms) =
     QuoteJSONString k @ [0x3A] @ QuoteJSONString v @ [0x2C] @ stringify_members ms"

definition JSON_stringify :: "(jsstring \<times> jsstring) list \<Rightarrow> jsstring" where
  "JSON_stringify members = [0x7B] @ stringify_members members @ [0x7D]"

subsection \<open>\<^verbatim>\<open>JSON.parse\<close>\<close>

text \<open>
  The text is cut into tokens, then a pushdown automaton builds the value; anything
  outside the JSON grammar is \<^verbatim>\<open>SyntaxError\<close>.
\<close>

datatype token =
    TLBrace | TRBrace | TLBracket | TRBracket | TColon | TComma
  | TString jsstring | TNumber jsstring | TTrue | TFalse | TNull

definition hex_value :: "16 word \<Rightarrow> nat option" where
  "hex_value h =
     (let c = unat h in
      if 0x30 \<le> c \<and> c \<le> 0x39 then Some (c - 0x30)
      else if 0x41 \<le> c \<and> c \<le> 0x46 then Some (c - 0x41 + 10)
      else if 0x61 \<le> c \<and> c \<le> 0x66 then Some (c - 0x61 + 10)
      else None)"

definition hex4 :: "16 word \<Rightarrow> 16 word \<Rightarrow> 16 word \<Rightarrow> 16 word \<Rightarrow> 16 word option" where
  "hex4 h3 h2 h1 h0 =
     (case (hex_value h3, hex_value h2, hex_value h1, hex_value h0) of
        (Some n3, Some n2, Some n1, Some n0) \<Rightarrow>
          Some (of_nat (((n3 * 0x10 + n2) * 0x10 + n1) * 0x10 + n0))
      | _ \<Rightarrow> None)"

definition unescape :: "16 word \<Rightarrow> 16 word option" where
  "unescape e =
     (if e = 0x22 then Some 0x22
      else if e = 0x5C then Some 0x5C
      else if e = 0x2F then Some 0x2F
      else if e = 0x62 then Some 0x08
      else if e = 0x66 then Some 0x0C
      else if e = 0x6E then Some 0x0A
      else if e = 0x72 then Some 0x0D
      else if e = 0x74 then Some 0x09
      else None)"

text \<open>\<open>scan_string\<close> reads a string literal after its opening quote.\<close>

fun scan_string :: "jsstring \<Rightarrow> (jsstring \<times> jsstring) option" where
  "scan_string [] = None"
| "scan_string (c # cs) =
     (if c = 0x22 then Some ([], cs)
      else if c = 0x5C then
        (case cs of
           [] \<Rightarrow> None
         | e # cs1 \<Rightarrow>
             if e = 0x75 then
               (case cs1 of
                  h3 # h2 # h1 # h0 # cs2 \<Rightarrow>
                    (case hex4 h3 h2 h1 h0 of
                       None \<Rightarrow> None
                     | Some u \<Rightarrow>
                         (case scan_string cs2 of
                            None \<Rightarrow> None
                          | Some (s, rest) \<Rightarrow> Some (u # s, rest)))
                | _ \<Rightarrow> None)
             else
               (case unescape e of
                  None \<Rightarrow> None
                | Some u \<Rightarrow>
                    (case scan_string cs1 of
                       None \<Rightarrow> None
                     | Some (s, rest) \<Rightarrow> Some (u # s, rest))))
      else if c < 0x20 then None
      else
        (case scan_string cs of
           None \<Rightarrow> None
         | Some (s, rest) \<Rightarrow> Some (c # s, rest)))"

definition is_digit :: "16 word \<Rightarrow> bool" where
  "is_digit c = (0x30 \<le> c \<and> c \<le> 0x39)"

definition scan_digits :: "jsstring \<Rightarrow> (jsstring \<times> jsstring) option" where
  "scan_digits cs =
     (if takeWhile is_digit cs = [] then None
      else Some (takeWhile is_digit cs, dropWhile is_digit cs))"

definition scan_int :: "jsstring \<Rightarrow> (jsstring \<times> jsstring) option" where
  "scan_int cs =
     (case cs of
        [] \<Rightarrow> None
      | c # cs' \<Rightarrow> if c = 0x30 then Some ([c], cs') else scan_digits cs)"

definition scan_frac :: "jsstring \<Rightarrow> (jsstring \<times> jsstring) option" where
  "scan_frac cs =
     (case cs of
        [] \<Rightarrow> Some ([], cs)
      | c # cs' \<Rightarrow>
          if c = 0x2E then
            (case scan_digits cs' of
               None \<Rightarrow> None
             | Some (ds, rest) \<Rightarrow> Some (c # ds, rest))
          else Some ([], cs))"

definition scan_exp :: "jsstring \<Rightarrow> (jsstring \<times> jsstring) option" where
  "scan_exp cs =
     (case cs of
        [] \<Rightarrow> Some ([], cs)
      | c # cs' \<Rightarrow>
          if c = 0x65 \<or> c = 0x45 then
            (case cs' of
               [] \<Rightarrow> None
             | g # cs'' \<Rightarrow>
                 if g = 0x2B \<or> g = 0x2D then
                   (case scan_digits cs'' of
                      None \<Rightarrow> None
                    | Some (ds, rest) \<Rightarrow> Some (c # g # ds, rest))
                 else
                   (case scan_digits cs' of
                      None \<Rightarrow> None
                    | Some (ds, rest) \<Rightarrow> Some (c # ds, rest)))
          else Some ([], cs))"

definition scan_unsigned :: "jsstring \<Rightarrow> (jsstring \<times> jsstring) option" where
  "scan_unsigned cs =
     (case scan_int cs of
        None \<Rightarrow> None
      | Some (ip, r1) \<Rightarrow>
          (case scan_frac r1 of
             None \<Rightarrow> None
           | Some (fp, r2) \<Rightarrow>
               (case scan_exp r2 of
                  None \<Rightarrow> None
                | Some (ep, r3) \<Rightarrow> Some (ip @ fp @ ep, r3))))"

definition scan_number :: "jsstring \<Rightarrow> (jsstring \<times> jsstring) option" where
  "scan_number cs =
     (case cs of
        [] \<Rightarrow> None
      | c # cs' \<Rightarrow>
          if c = 0x2D then
            (case scan_unsigned cs' of
               None \<Rightarrow> None
             | Some (n, rest) \<Rightarrow> Some (c # n, rest))
          else scan_unsigned cs)"

definition scan_word :: "jsstring \<Rightarrow> jsstring \<Rightarrow> jsstring option" where
  "scan_word w cs = (if take (length w) cs = w then Some (drop (length w) cs) else None)"

definition is_whitespace :: "16 word \<Rightarrow> bool" where
  "is_whitespace c = (c = 0x20 \<or> c = 0x09 \<or> c = 0x0A \<or> c = 0x0D)"

definition push_token :: "token \<Rightarrow> token list option \<Rightarrow> token list option" where
  "push_token t r = (case r of None \<Rightarrow> None | Some ts \<Rightarrow> Some (t # ts))"

function tokenize :: "jsstring \<Rightarrow> token list option" where
  "tokenize [] = Some []"
| "tokenize (c # cs) =
     (if is_whitespace c then tokenize cs
      else if c = 0x7B then push_token TLBrace (tokenize cs)
      else if c = 0x7D then push_token TRBrace (tokenize cs)
      else if c = 0x5B then push_token TLBracket (tokenize cs)
      else if c = 0x5D then push_token TRBracket (tokenize cs)
      else if c = 0x3A then push_token TColon (tokenize cs)
      else if c = 0x2C then push_token TComma (tokenize cs)
      else if c = 0x22 then
        (case scan_string cs of
           None \<Rightarrow> None
         | Some (s, rest) \<Rightarrow> push_token (TString s) (tokenize rest))
      else if c = 0x2D \<or> is_digit c then
        (case scan_number (c # cs) of
           None \<Rightarrow> None
         | Some (n, rest) \<Rightarrow> push_token (TNumber n) (tokenize rest))
      else if c = 0x74 then
        (case scan_word (lit ''rue'') cs of
           None \<Rightarrow> None
         | Some rest \<Rightarrow> push_token TTrue (tokenize rest))
      else if c = 0x66 then
        (case scan_word (lit ''alse'') cs of
           None \<Rightarrow> None
         | Some rest \<Rightarrow> push_token TFalse (tokenize rest))
      else if c = 0x6E then
        (case scan_word (lit ''ull'') cs of
           None \<Rightarrow> None
         | Some rest \<Rightarrow> push_token TNull (tokenize rest))
      else None)"
  by pat_completeness auto

termination
proof -
  have string_shorter: "length rest < length cs"
    if "scan_string cs = Some (s, rest)" for cs s rest
    using that
    by (induction cs arbitrary: s rest rule: scan_string.induct)
       (fastforce split: if_splits list.splits option.splits)+
  have digits_shorter: "length rest < length cs"
    if "scan_digits cs = Some (s, rest)" for cs s rest
    using that
    by (cases cs)
       (auto simp: scan_digits_def split: if_splits
             intro: le_imp_less_Suc length_dropWhile_le)
  have number_shorter: "length rest < length cs"
    if "scan_number cs = Some (s, rest)" for cs s rest
    using that
    by (fastforce simp: scan_number_def scan_unsigned_def scan_int_def scan_frac_def
          scan_exp_def
          split: list.splits if_splits option.splits dest!: digits_shorter)
  have word_shorter: "length rest \<le> length cs"
    if "scan_word w cs = Some rest" for w cs rest
    using that by (auto simp: scan_word_def split: if_splits)
  show ?thesis
    by (relation "measure length")
       (auto dest!: string_shorter number_shorter word_shorter)
qed

datatype frame =
    InArray "jsval list"
  | InObject "(jsstring \<times> jsval) list" jsstring

datatype expect =
    ExpectValue
  | ExpectValueOrClose
  | ExpectKeyOrClose
  | ExpectKey "(jsstring \<times> jsval) list"
  | ExpectColon "(jsstring \<times> jsval) list" jsstring
  | AfterValue jsval

fun scalar_of :: "token \<Rightarrow> jsval option" where
  "scalar_of (TString s) = Some (JString s)"
| "scalar_of (TNumber n) = Some (JNumber n)"
| "scalar_of TTrue = Some (JBool True)"
| "scalar_of TFalse = Some (JBool False)"
| "scalar_of TNull = Some JNull"
| "scalar_of _ = None"

definition begin_value :: "frame list \<Rightarrow> token \<Rightarrow> (expect \<times> frame list) option" where
  "begin_value stack t =
     (if t = TLBracket then Some (ExpectValueOrClose, InArray [] # stack)
      else if t = TLBrace then Some (ExpectKeyOrClose, stack)
      else (case scalar_of t of
              None \<Rightarrow> None
            | Some v \<Rightarrow> Some (AfterValue v, stack)))"

fun parse_step :: "expect \<times> frame list \<Rightarrow> token \<Rightarrow> (expect \<times> frame list) option" where
  "parse_step (ExpectValue, stack) t = begin_value stack t"
| "parse_step (ExpectValueOrClose, stack) t =
     (if t = TRBracket then
        (case stack of
           InArray elems # st \<Rightarrow> Some (AfterValue (JArray elems), st)
         | _ \<Rightarrow> None)
      else begin_value stack t)"
| "parse_step (ExpectKeyOrClose, stack) t =
     (case t of
        TRBrace \<Rightarrow> Some (AfterValue (JObject []), stack)
      | TString k \<Rightarrow> Some (ExpectColon [] k, stack)
      | _ \<Rightarrow> None)"
| "parse_step (ExpectKey members, stack) t =
     (case t of
        TString k \<Rightarrow> Some (ExpectColon members k, stack)
      | _ \<Rightarrow> None)"
| "parse_step (ExpectColon members k, stack) t =
     (if t = TColon then Some (ExpectValue, InObject members k # stack) else None)"
| "parse_step (AfterValue v, stack) t =
     (case stack of
        [] \<Rightarrow> None
      | InArray elems # st \<Rightarrow>
          if t = TComma then Some (ExpectValue, InArray (elems @ [v]) # st)
          else if t = TRBracket then Some (AfterValue (JArray (elems @ [v])), st)
          else None
      | InObject members k # st \<Rightarrow>
          if t = TComma then Some (ExpectKey (members @ [(k, v)]), st)
          else if t = TRBrace then Some (AfterValue (JObject (members @ [(k, v)])), st)
          else None)"

fun parse_tokens :: "expect \<times> frame list \<Rightarrow> token list \<Rightarrow> jsval option" where
  "parse_tokens (AfterValue v, []) [] = Some v"
| "parse_tokens cfg [] = None"
| "parse_tokens cfg (t # ts) =
     (case parse_step cfg t of
        None \<Rightarrow> None
      | Some cfg' \<Rightarrow> parse_tokens cfg' ts)"

definition JSON_parse :: "jsstring \<Rightarrow> exn + jsval" where
  "JSON_parse text =
     (case tokenize text of
        None \<Rightarrow> Inl SyntaxError
      | Some ts \<Rightarrow>
          (case parse_tokens (ExpectValue, []) ts of
             None \<Rightarrow> Inl SyntaxError
           | Some v \<Rightarrow> Inr v))"

text \<open>
  Reading the property \<^verbatim>\<open>v\<close> or \<^verbatim>\<open>d\<close> of a parsed value (\<^verbatim>\<open>parsed.v\<close>,
  \<^verbatim>\<open>parsed.d\<close>): \<^verbatim>\<open>TypeError\<close> on \<^verbatim>\<open>null\<close>, the last member of that name on an
  object, \<^verbatim>\<open>undefined\<close> otherwise (no prototype of a parsed value has a property
  \<^verbatim>\<open>v\<close> or \<^verbatim>\<open>d\<close>).
\<close>

definition own_property :: "(jsstring \<times> jsval) list \<Rightarrow> jsstring \<Rightarrow> jsval" where
  "own_property members k =
     (case map_of (rev members) k of None \<Rightarrow> JUndefined | Some v \<Rightarrow> v)"

fun get_property :: "jsval \<Rightarrow> jsstring \<Rightarrow> exn + jsval" where
  "get_property JUndefined k = Inl TypeError"
| "get_property JNull k = Inl TypeError"
| "get_property (JObject members) k = Inr (own_property members k)"
| "get_property v k = Inr JUndefined"

subsection \<open>The codec of \<^verbatim>\<open>CursorPaginator\<close>\<close>

datatype CursorDirection = Forward | Backward

definition direction_literal :: "CursorDirection \<Rightarrow> jsstring" where
  "direction_literal d = (case d of Forward \<Rightarrow> lit ''forward'' | Backward \<Rightarrow> lit ''backward'')"

text \<open>
  The configuration of a paginator. \<open>cursorKey\<close> reads the designated key of an entity
  (\<^verbatim>\<open>item[this.cursorKey]\<close>); \<open>serializeCursor\<close> returns a string, as its TypeScript
  type says; \<open>deserializeCursor\<close> receives whatever \<^verbatim>\<open>parsed.v\<close> is at run time
  and may throw.
\<close>

record ('c, 'v, 'e) CursorPaginator =
  cursorKey :: "'e \<Rightarrow> 'c"
  serializeCursor :: "'c \<Rightarrow> jsstring"
  deserializeCursor :: "jsval \<Rightarrow> exn + 'v"

text \<open>
  \<^verbatim>\<open>DecodedCursor\<close>: the interface declares \<^verbatim>\<open>direction: CursorDirection\<close>, but
  \<^verbatim>\<open>decode\<close> stores \<^verbatim>\<open>parsed.d\<close> behind a type assertion, so at run time the field
  holds any JSON value or \<^verbatim>\<open>undefined\<close>.
\<close>

record 'v DecodedCursor =
  decoded_value :: 'v
  decoded_direction :: jsval

definition encode :: "('c, 'v, 'e) CursorPaginator \<Rightarrow> 'c \<Rightarrow> CursorDirection \<Rightarrow> jsstring" where
  "encode p v direction =
     (let payload = JSON_stringify
            [(lit ''v'', serializeCursor p v), (lit ''d'', direction_literal direction)]
      in base64url_encode (utf8_encode payload))"

text \<open>The body of the \<^verbatim>\<open>try\<close> block of \<^verbatim>\<open>decode\<close>; \<open>Inl\<close> is a thrown exception.\<close>

definition decode_body ::
  "('c, 'v, 'e) CursorPaginator \<Rightarrow> jsstring \<Rightarrow> exn + 'v DecodedCursor" where
  "decode_body p cursor =
     (let payload = utf8_decode (base64url_decode cursor) in
      case JSON_parse payload of
        Inl e \<Rightarrow> Inl e
      | Inr parsed \<Rightarrow>
          (case get_property parsed (lit ''v'') of
             Inl e \<Rightarrow> Inl e
           | Inr v \<Rightarrow>
               (case deserializeCursor p v of
                  Inl e \<Rightarrow> Inl e
                | Inr val \<Rightarrow>
                    (case get_property parsed (lit ''d'') of
                       Inl e \<Rightarrow> Inl e
                     | Inr d \<Rightarrow> Inr \<lparr>decoded_value = val, decoded_direction = d\<rparr>))))"

text \<open>
  \<^verbatim>\<open>decode\<close>: \<^verbatim>\<open>try { ... } catch { return null; }\<close>. The result \<open>Inr None\<close> is
  \<^verbatim>\<open>null\<close>, \<open>Inr (Some c)\<close> a cursor, \<open>Inl e\<close> an exception leaving \<^verbatim>\<open>decode\<close>.
\<close>

definition decode ::
  "('c, 'v, 'e) CursorPaginator \<Rightarrow> jsstring \<Rightarrow> exn + 'v DecodedCursor option" where
  "decode p cursor =
     (case decode_body p cursor of
        Inl e \<Rightarrow> Inr None
      | Inr c \<Rightarrow> Inr (Some c))"

text \<open>\<^verbatim>\<open>createIdPaginator\<close>, for entities with a string \<^verbatim>\<open>id\<close> read by \<open>id_of\<close>.\<close>

definition createIdPaginator :: "('e \<Rightarrow> jsstring) \<Rightarrow> (jsstring, jsval, 'e) CursorPaginator" where
  "createIdPaginator id_of =
     \<lparr>cursorKey = id_of, serializeCursor = (\<lambda>v. v), deserializeCursor = (\<lambda>v. Inr v)\<rparr>"

subsection \<open>The value object \<^verbatim>\<open>Cursor\<close>\<close>

record Cursor =
  cursor_value :: jsstring
  cursor_direction :: CursorDirection

text \<open>
  \<^verbatim>\<open>cursorPayloadSchema.parse\<close>: the zod schema
  \<^verbatim>\<open>z.object({ v: z.string(), d: z.enum(['forward', 'backward']) })\<close> accepts an object
  whose \<^verbatim>\<open>v\<close> is a string and whose \<^verbatim>\<open>d\<close> is one of the two literals, ignores other
  keys, and throws on anything else.
\<close>

definition cursorPayloadSchema_parse :: "jsval \<Rightarrow> exn + (jsstring \<times> CursorDirection)" where
  "cursorPayloadSchema_parse x =
     (case x of
        JObject members \<Rightarrow>
          (case own_property members (lit ''v'') of
             JString v \<Rightarrow>
               (case own_property members (lit ''d'') of
                  JString d \<Rightarrow>
                    if d = lit ''forward'' then Inr (v, Forward)
                    else if d = lit ''backward'' then Inr (v, Backward)
                    else Inl ZodError
                | _ \<Rightarrow> Inl ZodError)
           | _ \<Rightarrow> Inl ZodError)
      | _ \<Rightarrow> Inl ZodError)"

text \<open>The body of the \<^verbatim>\<open>try\<close> block of \<^verbatim>\<open>Cursor.decode\<close>.\<close>

definition Cursor_decode_body :: "jsstring \<Rightarrow> exn + Cursor" where
  "Cursor_decode_body encoded =
     (let payload = utf8_decode (base64url_decode encoded) in
      case JSON_parse payload of
        Inl e \<Rightarrow> Inl e
      | Inr json \<Rightarrow>
          (case cursorPayloadSchema_parse json of
             Inl e \<Rightarrow> Inl e
           | Inr (v, d) \<Rightarrow> Inr \<lparr>cursor_value = v, cursor_direction = d\<rparr>))"

definition Cursor_decode :: "jsstring \<Rightarrow> exn + Cursor option" where
  "Cursor_decode encoded =
     (case Cursor_decode_body encoded of
        Inl e \<Rightarrow> Inr None
      | Inr c \<Rightarrow> Inr (Some c))"

definition Cursor_encode :: "Cursor \<Rightarrow> jsstring" where
  "Cursor_encode c =
     (let payload = JSON_stringify
            [(lit ''v'', cursor_value c), (lit ''d'', direction_literal (cursor_direction c))]
      in base64url_encode (utf8_encode payload))"

subsection \<open>Arrays in a store\<close>

text \<open>
  JavaScript arrays are objects: \<^verbatim>\<open>slice\<close> allocates a new array, \<^verbatim>\<open>reverse\<close>
  reverses its receiver in place and returns the same reference. The store maps a
  reference to the contents of its array.
\<close>

type_synonym ref = nat

record 'e store =
  arrays :: "ref \<Rightarrow> 'e list"
  next_ref :: ref

definition slice_list :: "int \<Rightarrow> int \<Rightarrow> 'a list \<Rightarrow> 'a list" where
  "slice_list start stop xs =
     (let len = int (length xs);
          k = (if start < 0 then max (len + start) 0 else min start len);
          final = (if stop < 0 then max (len + stop) 0 else min stop len)
      in take (nat (final - k)) (drop (nat k) xs))"

definition array_slice :: "ref \<Rightarrow> int \<Rightarrow> int \<Rightarrow> 'e store \<Rightarrow> ref \<times> 'e store" where
  "array_slice r start stop h =
     (next_ref h,
      h\<lparr>arrays := (arrays h)(next_ref h := slice_list start stop (arrays h r)),
        next_ref := Suc (next_ref h)\<rparr>)"

definition array_reverse :: "ref \<Rightarrow> 'e store \<Rightarrow> ref \<times> 'e store" where
  "array_reverse r h = (r, h\<lparr>arrays := (arrays h)(r := rev (arrays h r))\<rparr>)"

definition array_index :: "'e store \<Rightarrow> ref \<Rightarrow> int \<Rightarrow> 'e option" where
  "array_index h r i =
     (if 0 \<le> i \<and> i < int (length (arrays h r)) then Some (arrays h r ! nat i) else None)"

subsection \<open>The page builder \<^verbatim>\<open>buildResult\<close>\<close>

text \<open>
  \<^verbatim>\<open>CursorPaginationOptions\<close>. The limit is a JavaScript number; here it is any integer,
  negative ones included (\<^verbatim>\<open>buildResult\<close> does not check it; the request schema admits
  the integers 1 to 100). An absent \<^verbatim>\<open>cursor\<close> or \<^verbatim>\<open>defaultDirection\<close> is \<open>None\<close>.
\<close>

record CursorPaginationOptions =
  limit :: int
  cursor :: "jsstring option"
  defaultDirection :: "CursorDirection option"

record PaginationMeta =
  nextCursor :: "jsstring option"
  prevCursor :: "jsstring option"
  hasNextPage :: bool
  hasPrevPage :: bool
  count :: nat

record CursorPaginatedResult =
  data :: ref
  pagination :: PaginationMeta

text \<open>\<^verbatim>\<open>a ?? b\<close>\<close>

definition nullish :: "jsval \<Rightarrow> jsval \<Rightarrow> jsval" where
  "nullish a b = (if a = JUndefined \<or> a = JNull then b else a)"

text \<open>
  The constant \<^verbatim>\<open>direction\<close> of \<^verbatim>\<open>buildResult\<close>:
  \<^verbatim>\<open>(cursor ? this.decode(cursor)?.direction : null) ?? options.defaultDirection ?? 'forward'\<close>.
  An absent cursor and the empty string are falsy.
\<close>

definition resolve_direction ::
  "('c, 'v, 'e) CursorPaginator \<Rightarrow> CursorPaginationOptions \<Rightarrow> exn + jsval" where
  "resolve_direction p options =
     (case (case cursor options of
              None \<Rightarrow> Inr JNull
            | Some c \<Rightarrow>
                if c = [] then Inr JNull
                else (case decode p c of
                        Inl e \<Rightarrow> Inl e
                      | Inr None \<Rightarrow> Inr JUndefined
                      | Inr (Some dc) \<Rightarrow> Inr (decoded_direction dc))) of
        Inl e \<Rightarrow> Inl e
      | Inr from_cursor \<Rightarrow>
          Inr (nullish
                 (nullish from_cursor
                    (case defaultDirection options of
                       None \<Rightarrow> JUndefined
                     | Some d \<Rightarrow> JString (direction_literal d)))
                 (JString (lit ''forward''))))"

text \<open>
  \<^verbatim>\<open>if (flag && item) { c = this.encode(item[this.cursorKey], direction); }\<close> with
  \<^verbatim>\<open>c\<close> initially \<^verbatim>\<open>null\<close>. Entities are objects, so an item is truthy exactly when
  the index was in range.
\<close>

definition cursor_when ::
  "('c, 'v, 'e) CursorPaginator \<Rightarrow> bool \<Rightarrow> 'e option \<Rightarrow> CursorDirection \<Rightarrow> jsstring option" where
  "cursor_when p flag item direction =
     (if flag then
        (case item of
           None \<Rightarrow> None
         | Some e \<Rightarrow> Some (encode p (cursorKey p e) direction))
      else None)"

definition buildResult ::
  "('c, 'v, 'e) CursorPaginator \<Rightarrow> ref \<Rightarrow> CursorPaginationOptions \<Rightarrow> 'e store
     \<Rightarrow> exn + (CursorPaginatedResult \<times> 'e store)" where
  "buildResult p entities options h =
     (case resolve_direction p options of
        Inl e \<Rightarrow> Inl e
      | Inr direction \<Rightarrow>
          (let hasMore = (int (length (arrays h entities)) > limit options);
               (items, h1) =
                 (if hasMore then array_slice entities 0 (limit options) h else (entities, h));
               (data_ref, h2) =
                 (if direction = JString (lit ''backward'') then array_reverse items h1
                  else (items, h1));
               firstItem = array_index h2 data_ref 0;
               lastItem = array_index h2 data_ref (int (length (arrays h2 data_ref)) - 1);
               (next_c, prev_c, has_next, has_prev) =
                 (if length (arrays h2 data_ref) > 0 then
                    (if direction = JString (lit ''forward'') then
                       (let hasNext = hasMore; hasPrev = (cursor options \<noteq> None) in
                        (cursor_when p hasNext lastItem Forward,
                         cursor_when p hasPrev firstItem Backward, hasNext, hasPrev))
                     else
                       (let hasNext = (cursor options \<noteq> None); hasPrev = hasMore in
                        (cursor_when p hasNext lastItem Forward,
                         cursor_when p hasPrev firstItem Backward, hasNext, hasPrev)))
                  else (None, None, False, False))
           in Inr (\<lparr>data = data_ref,
                     pagination =
                       \<lparr>nextCursor = next_c, prevCursor = prev_c, hasNextPage = has_next,
                        hasPrevPage = has_prev, count = length (arrays h2 data_ref)\<rparr>\<rparr>,
                   h2)))"

text \<open>
  What a caller observes: it holds an array with the contents \<open>entities\<close>, calls
  \<^verbatim>\<open>buildResult\<close> on it, and then reads the returned page and its own array again.
\<close>

record 'e observed =
  page_data :: "'e list"
  page_meta :: PaginationMeta
  entities_after :: "'e list"

definition caller_store :: "'e list \<Rightarrow> 'e store" where
  "caller_store entities = \<lparr>arrays = (\<lambda>r. if r = 0 then entities else []), next_ref = 1\<rparr>"

definition call_buildResult ::
  "('c, 'v, 'e) CursorPaginator \<Rightarrow> 'e list \<Rightarrow> CursorPaginationOptions \<Rightarrow> exn + 'e observed" where
  "call_buildResult p entities options =
     (case buildResult p 0 options (caller_store entities) of
        Inl e \<Rightarrow> Inl e
      | Inr (res, h') \<Rightarrow>
          Inr \<lparr>page_data = arrays h' (data res), page_meta = pagination res,
               entities_after = arrays h' 0\<rparr>)"

text \<open>Lines 317 and 318 of the source, on the contents of the array.\<close>

definition hasMore_of :: "'e list \<Rightarrow> int \<Rightarrow> bool" where
  "hasMore_of entities lim = (int (length entities) > lim)"

definition items_of :: "'e list \<Rightarrow> int \<Rightarrow> 'e list" where
  "items_of entities lim = (if hasMore_of entities lim then slice_list 0 lim entities else entities)"

text \<open>The entity of the unit tests, \<^verbatim>\<open>TestEntity\<close>, and its paginator.\<close>

record TestEntity =
  entity_id :: jsstring
  entity_name :: jsstring

definition test_paginator :: "(jsstring, jsval, TestEntity) CursorPaginator" where
  "test_paginator = createIdPaginator entity_id"

definition entity :: "string \<Rightarrow> TestEntity" where
  "entity s = \<lparr>entity_id = lit s, entity_name = lit ''Entity''\<rparr>"

section \<open>Properties of the page builder\<close>

text \<open>Neither \<^verbatim>\<open>decode\<close> nor the resolution of the direction throws, so \<^verbatim>\<open>buildResult\<close> always returns.\<close>

lemma decode_returns: "\<exists>r. decode p c = Inr r"
  by (simp add: decode_def split: sum.split)

lemma resolve_direction_returns: "\<exists>d. resolve_direction p options = Inr d"
proof (cases "cursor options")
  case None
  then show ?thesis by (simp add: resolve_direction_def)
next
  case (Some c)
  obtain r where "decode p c = Inr r" using decode_returns by blast
  with Some show ?thesis
    by (cases r) (simp_all add: resolve_direction_def)
qed

text \<open>Reading the first and the last element of a non-empty array.\<close>

lemma array_index_first:
  "arrays h r \<noteq> [] \<Longrightarrow> array_index h r 0 = Some (hd (arrays h r))"
  by (cases "arrays h r") (simp_all add: array_index_def)

lemma array_index_last:
  "arrays h r \<noteq> [] \<Longrightarrow> n = length (arrays h r) \<Longrightarrow>
     array_index h r (int n - 1) = Some (last (arrays h r))"
  by (simp add: array_index_def last_conv_nth nat_diff_distrib')

lemma caller_store_simps:
  "arrays (caller_store es) 0 = es" "next_ref (caller_store es) = Suc 0"
  by (simp_all add: caller_store_def)

lemma literals_differ: "lit ''backward'' \<noteq> lit ''forward''" "lit ''forward'' \<noteq> lit ''backward''"
  by (simp_all add: lit_def)

lemmas buildResult_unfold =
  call_buildResult_def buildResult_def items_of_def hasMore_of_def array_slice_def
  array_reverse_def cursor_when_def Let_def array_index_first array_index_last
  caller_store_simps literals_differ

text \<open>
  The whole observation in one equation: the page is the trimmed batch, reversed when
  the direction is \<^verbatim>\<open>'backward'\<close>; the flags follow the
  \<^verbatim>\<open>direction === 'forward'\<close> test; and the caller's array is reversed when
  \<^verbatim>\<open>items\<close> aliases it.
\<close>

lemma call_buildResult_eq:
  assumes "resolve_direction p options = Inr direction"
  shows "call_buildResult p entities options =
    Inr \<lparr>page_data =
           (if direction = JString (lit ''backward'')
            then rev (items_of entities (limit options))
            else items_of entities (limit options)),
         page_meta =
           (if items_of entities (limit options) = [] then
              \<lparr>nextCursor = None, prevCursor = None, hasNextPage = False,
               hasPrevPage = False, count = 0\<rparr>
            else
              \<lparr>nextCursor =
                 (if (if direction = JString (lit ''forward'')
                      then hasMore_of entities (limit options) else cursor options \<noteq> None)
                  then Some (encode p (cursorKey p
                         (if direction = JString (lit ''backward'')
                          then hd (items_of entities (limit options))
                          else last (items_of entities (limit options)))) Forward)
                  else None),
               prevCursor =
                 (if (if direction = JString (lit ''forward'')
                      then cursor options \<noteq> None else hasMore_of entities (limit options))
                  then Some (encode p (cursorKey p
                         (if direction = JString (lit ''backward'')
                          then last (items_of entities (limit options))
                          else hd (items_of entities (limit options)))) Backward)
                  else None),
               hasNextPage =
                 (if direction = JString (lit ''forward'')
                  then hasMore_of entities (limit options) else cursor options \<noteq> None),
               hasPrevPage =
                 (if direction = JString (lit ''forward'')
                  then cursor options \<noteq> None else hasMore_of entities (limit options)),
               count = length (items_of entities (limit options))\<rparr>),
         entities_after =
           (if direction = JString (lit ''backward'') \<and> \<not> hasMore_of entities (limit options)
            then rev entities else entities)\<rparr>"
proof (cases "hasMore_of entities (limit options)")
  case True
  then have over: "limit options < int (length entities)" by (simp add: hasMore_of_def)
  show ?thesis
  proof (cases "direction = JString (lit ''backward'')")
    case True
    with over assms show ?thesis
      by (simp add: buildResult_unfold hd_rev last_rev)
  next
    case False
    with over assms show ?thesis
      by (simp add: buildResult_unfold)
  qed
next
  case False
  then have within: "\<not> limit options < int (length entities)" by (simp add: hasMore_of_def)
  show ?thesis
  proof (cases "direction = JString (lit ''backward'')")
    case True
    with within assms show ?thesis
      by (simp add: buildResult_unfold hd_rev last_rev)
  next
    case False
    with within assms show ?thesis
      by (simp add: buildResult_unfold)
  qed
qed

lemma slice_list_prefix: "0 \<le> lim \<Longrightarrow> slice_list 0 lim xs = take (nat lim) xs"
  by (simp add: slice_list_def Let_def min_def)

lemma items_of_prefix: "0 \<le> lim \<Longrightarrow> items_of xs lim = take (nat lim) xs"
  by (simp add: items_of_def hasMore_of_def slice_list_prefix)

lemma items_of_Nil: "items_of [] lim = []"
  by (simp add: items_of_def slice_list_def Let_def)

text \<open>
  C9 (empty input). For every paginator and every options record (any limit, cursor
  present or absent, any default direction), \<^verbatim>\<open>buildResult\<close> on the empty list
  returns no data, count 0, both cursors \<^verbatim>\<open>null\<close> and both flags false.
\<close>

theorem buildResult_empty:
  "call_buildResult p [] options =
     Inr \<lparr>page_data = [],
          page_meta = \<lparr>nextCursor = None, prevCursor = None, hasNextPage = False,
                       hasPrevPage = False, count = 0\<rparr>,
          entities_after = []\<rparr>"
proof -
  obtain direction where "resolve_direction p options = Inr direction"
    using resolve_direction_returns by blast
  then show ?thesis
    by (simp add: call_buildResult_eq items_of_Nil)
qed

text \<open>
  C10 (internal consistency). Every returned page has \<open>count\<close> equal to the length of
  its data, a next cursor exactly when \<open>hasNextPage\<close> holds and a previous cursor
  exactly when \<open>hasPrevPage\<close> holds.
\<close>

theorem page_consistent:
  "\<exists>page. call_buildResult p entities options = Inr page
     \<and> count (page_meta page) = length (page_data page)
     \<and> (nextCursor (page_meta page) \<noteq> None) = hasNextPage (page_meta page)
     \<and> (prevCursor (page_meta page) \<noteq> None) = hasPrevPage (page_meta page)"
proof -
  obtain direction where "resolve_direction p options = Inr direction"
    using resolve_direction_returns by blast
  then show ?thesis
    by (simp add: call_buildResult_eq)
qed

text \<open>
  C3 (flags and cursors by effective direction). When the trimmed batch is not empty:
  for direction \<^verbatim>\<open>'forward'\<close>, \<open>hasNextPage\<close> is \<open>hasMore\<close> and \<open>hasPrevPage\<close>
  says whether \<^verbatim>\<open>options.cursor\<close> is present; for \<^verbatim>\<open>'backward'\<close> the two are
  exchanged; and whenever a flag holds its cursor is the encoding of the key of the last
  (next, \<^verbatim>\<open>'forward'\<close>) or first (previous, \<^verbatim>\<open>'backward'\<close>) item of the returned
  data.
\<close>

theorem flags_and_cursors:
  assumes "items_of entities (limit options) \<noteq> []"
  shows "\<exists>direction page.
           resolve_direction p options = Inr direction
         \<and> call_buildResult p entities options = Inr page
         \<and> (direction = JString (lit ''forward'') \<longrightarrow>
              hasNextPage (page_meta page) = hasMore_of entities (limit options)
            \<and> hasPrevPage (page_meta page) = (cursor options \<noteq> None))
         \<and> (direction = JString (lit ''backward'') \<longrightarrow>
              hasNextPage (page_meta page) = (cursor options \<noteq> None)
            \<and> hasPrevPage (page_meta page) = hasMore_of entities (limit options))
         \<and> (hasNextPage (page_meta page) \<longrightarrow>
              nextCursor (page_meta page)
                = Some (encode p (cursorKey p (last (page_data page))) Forward))
         \<and> (hasPrevPage (page_meta page) \<longrightarrow>
              prevCursor (page_meta page)
                = Some (encode p (cursorKey p (hd (page_data page))) Backward))"
proof -
  obtain direction where d: "resolve_direction p options = Inr direction"
    using resolve_direction_returns by blast
  show ?thesis
    using assms by (simp add: d call_buildResult_eq hd_rev last_rev literals_differ)
qed

text \<open>
  C4 (windowing). The limit of a request is an integer from 1 to 100; the property
  holds for every limit of at least 1. If the limit is at least 1 and there are more entities
  than the limit, the data is the prefix of that length (reversed when the direction is
  \<^verbatim>\<open>'backward'\<close>) and the over-fetch flag of the direction is true; if there are at
  most \<open>limit\<close> entities, the data has the length of the input and that flag is false.
\<close>

theorem windowing:
  "\<exists>direction page.
      resolve_direction p options = Inr direction
    \<and> call_buildResult p entities options = Inr page
    \<and> (1 \<le> limit options \<and> int (length entities) > limit options \<longrightarrow>
         length (page_data page) = nat (limit options)
       \<and> page_data page =
           (if direction = JString (lit ''backward'')
            then rev (take (nat (limit options)) entities)
            else take (nat (limit options)) entities)
       \<and> (direction = JString (lit ''forward'') \<longrightarrow> hasNextPage (page_meta page))
       \<and> (direction = JString (lit ''backward'') \<longrightarrow> hasPrevPage (page_meta page)))
    \<and> (int (length entities) \<le> limit options \<longrightarrow>
         length (page_data page) = length entities
       \<and> (direction = JString (lit ''forward'') \<longrightarrow> \<not> hasNextPage (page_meta page))
       \<and> (direction = JString (lit ''backward'') \<longrightarrow> \<not> hasPrevPage (page_meta page)))"
proof -
  obtain direction where d: "resolve_direction p options = Inr direction"
    using resolve_direction_returns by blast
  have over: "items_of entities (limit options) = take (nat (limit options)) entities"
    "items_of entities (limit options) \<noteq> []" "hasMore_of entities (limit options)"
    if "1 \<le> limit options" "int (length entities) > limit options"
    using that by (auto simp: items_of_prefix hasMore_of_def)
  have within: "items_of entities (limit options) = entities"
    "\<not> hasMore_of entities (limit options)"
    if "int (length entities) \<le> limit options"
    using that by (auto simp: items_of_def hasMore_of_def)
  show ?thesis
    using over within
    by (auto simp: d call_buildResult_eq literals_differ)
qed

text \<open>
  C5 (backward reversal). For direction \<^verbatim>\<open>'backward'\<close> the returned data is the
  reverse of the trimmed batch, for \<^verbatim>\<open>'forward'\<close> it is the trimmed batch itself; for
  a limit that is not negative the trimmed batch is the first \<open>limit\<close> entities; and a
  batch fetched in descending order of any relation \<open>R\<close> comes out ascending.
\<close>

theorem backward_reversal:
  "\<exists>direction page.
      resolve_direction p options = Inr direction
    \<and> call_buildResult p entities options = Inr page
    \<and> (direction = JString (lit ''backward'') \<longrightarrow>
         page_data page = rev (items_of entities (limit options)))
    \<and> (direction = JString (lit ''forward'') \<longrightarrow>
         page_data page = items_of entities (limit options))
    \<and> (0 \<le> limit options \<longrightarrow>
         items_of entities (limit options) = take (nat (limit options)) entities)
    \<and> (direction = JString (lit ''backward'')
         \<and> sorted_wrt (\<lambda>a b. R b a) (items_of entities (limit options)) \<longrightarrow>
         sorted_wrt R (page_data page))"
proof -
  obtain direction where d: "resolve_direction p options = Inr direction"
    using resolve_direction_returns by blast
  show ?thesis
    by (simp add: d call_buildResult_eq literals_differ items_of_prefix sorted_wrt_rev)
qed

section \<open>The page builder on concrete batches\<close>

text \<open>
  The tokens used below are
  \<^verbatim>\<open>eyJ2IjoiaWQtMCIsImQiOiJmb3J3YXJkIn0\<close> for \<^verbatim>\<open>{"v":"id-0","d":"forward"}\<close> and
  \<^verbatim>\<open>eyJ2IjoiaWQtOSIsImQiOiJiYWNrd2FyZCJ9\<close> for \<^verbatim>\<open>{"v":"id-9","d":"backward"}\<close>.
\<close>

text \<open>
  C3 at two pages of three fetched entities with limit 2: a forward page after
  \<^verbatim>\<open>id-0\<close> and a backward page before \<^verbatim>\<open>id-9\<close>.
\<close>

theorem flags_and_cursors_witness:
  "items_of [entity ''id-1'', entity ''id-2'', entity ''id-3''] 2 \<noteq> []
   \<and> resolve_direction test_paginator
        \<lparr>limit = 2, cursor = Some (lit ''eyJ2IjoiaWQtMCIsImQiOiJmb3J3YXJkIn0''),
         defaultDirection = None\<rparr> = Inr (JString (lit ''forward''))
   \<and> (\<exists>page.
        call_buildResult test_paginator [entity ''id-1'', entity ''id-2'', entity ''id-3'']
          \<lparr>limit = 2, cursor = Some (lit ''eyJ2IjoiaWQtMCIsImQiOiJmb3J3YXJkIn0''),
           defaultDirection = None\<rparr> = Inr page
      \<and> hasNextPage (page_meta page) \<and> hasPrevPage (page_meta page)
      \<and> nextCursor (page_meta page)
          = Some (encode test_paginator (entity_id (last (page_data page))) Forward)
      \<and> prevCursor (page_meta page)
          = Some (encode test_paginator (entity_id (hd (page_data page))) Backward))
   \<and> items_of [entity ''id-8'', entity ''id-7'', entity ''id-6''] 2 \<noteq> []
   \<and> resolve_direction test_paginator
        \<lparr>limit = 2, cursor = Some (lit ''eyJ2IjoiaWQtOSIsImQiOiJiYWNrd2FyZCJ9''),
         defaultDirection = None\<rparr> = Inr (JString (lit ''backward''))
   \<and> (\<exists>page.
        call_buildResult test_paginator [entity ''id-8'', entity ''id-7'', entity ''id-6'']
          \<lparr>limit = 2, cursor = Some (lit ''eyJ2IjoiaWQtOSIsImQiOiJiYWNrd2FyZCJ9''),
           defaultDirection = None\<rparr> = Inr page
      \<and> hasNextPage (page_meta page) \<and> hasPrevPage (page_meta page)
      \<and> nextCursor (page_meta page)
          = Some (encode test_paginator (entity_id (last (page_data page))) Forward)
      \<and> prevCursor (page_meta page)
          = Some (encode test_paginator (entity_id (hd (page_data page))) Backward))"
proof -
  let ?ef = "[entity ''id-1'', entity ''id-2'', entity ''id-3'']"
  let ?eb = "[entity ''id-8'', entity ''id-7'', entity ''id-6'']"
  let ?optf = "\<lparr>limit = 2, cursor = Some (lit ''eyJ2IjoiaWQtMCIsImQiOiJmb3J3YXJkIn0''),
                defaultDirection = None\<rparr>"
  let ?optb = "\<lparr>limit = 2, cursor = Some (lit ''eyJ2IjoiaWQtOSIsImQiOiJiYWNrd2FyZCJ9''),
                defaultDirection = None\<rparr>"
  have nef: "items_of ?ef 2 \<noteq> []" and neb: "items_of ?eb 2 \<noteq> []"
    by code_simp+
  have df: "resolve_direction test_paginator ?optf = Inr (JString (lit ''forward''))"
    by code_simp
  have db: "resolve_direction test_paginator ?optb = Inr (JString (lit ''backward''))"
    by code_simp
  have over: "hasMore_of ?ef 2" "hasMore_of ?eb 2"
    by code_simp+
  have key: "cursorKey test_paginator = entity_id"
    by (simp add: test_paginator_def createIdPaginator_def)
  from nef have nef': "items_of ?ef (limit ?optf) \<noteq> []" by simp
  from neb have neb': "items_of ?eb (limit ?optb) \<noteq> []" by simp
  show ?thesis
    using flags_and_cursors [OF nef', of test_paginator]
      flags_and_cursors [OF neb', of test_paginator] nef neb df db over key
    by (auto simp: literals_differ)
qed

text \<open>
  C4 at limit 2: three entities fetched forward, three fetched backward, and two
  entities (no more than the limit) in either direction.
\<close>

theorem windowing_witness:
  "(1::int) \<le> 2 \<and> int (length [entity ''id-1'', entity ''id-2'', entity ''id-3'']) > 2
   \<and> resolve_direction test_paginator \<lparr>limit = 2, cursor = None, defaultDirection = None\<rparr>
       = Inr (JString (lit ''forward''))
   \<and> (\<exists>page.
        call_buildResult test_paginator [entity ''id-1'', entity ''id-2'', entity ''id-3'']
          \<lparr>limit = 2, cursor = None, defaultDirection = None\<rparr> = Inr page
      \<and> page_data page = [entity ''id-1'', entity ''id-2'']
      \<and> hasNextPage (page_meta page))
   \<and> resolve_direction test_paginator
        \<lparr>limit = 2, cursor = Some (lit ''eyJ2IjoiaWQtOSIsImQiOiJiYWNrd2FyZCJ9''),
         defaultDirection = None\<rparr> = Inr (JString (lit ''backward''))
   \<and> (\<exists>page.
        call_buildResult test_paginator [entity ''id-8'', entity ''id-7'', entity ''id-6'']
          \<lparr>limit = 2, cursor = Some (lit ''eyJ2IjoiaWQtOSIsImQiOiJiYWNrd2FyZCJ9''),
           defaultDirection = None\<rparr> = Inr page
      \<and> page_data page = [entity ''id-7'', entity ''id-8'']
      \<and> hasPrevPage (page_meta page))
   \<and> int (length [entity ''id-1'', entity ''id-2'']) \<le> 2
   \<and> (\<exists>page.
        call_buildResult test_paginator [entity ''id-1'', entity ''id-2'']
          \<lparr>limit = 2, cursor = None, defaultDirection = None\<rparr> = Inr page
      \<and> length (page_data page) = 2
      \<and> \<not> hasNextPage (page_meta page))
   \<and> (\<exists>page.
        call_buildResult test_paginator [entity ''id-8'', entity ''id-7'']
          \<lparr>limit = 2, cursor = Some (lit ''eyJ2IjoiaWQtOSIsImQiOiJiYWNrd2FyZCJ9''),
           defaultDirection = None\<rparr> = Inr page
      \<and> length (page_data page) = 2
      \<and> \<not> hasPrevPage (page_meta page))"
proof -
  let ?optf = "\<lparr>limit = 2, cursor = None, defaultDirection = None\<rparr>"
  let ?optb = "\<lparr>limit = 2, cursor = Some (lit ''eyJ2IjoiaWQtOSIsImQiOiJiYWNrd2FyZCJ9''),
                defaultDirection = None\<rparr>"
  have df: "resolve_direction test_paginator ?optf = Inr (JString (lit ''forward''))"
    by code_simp
  have db: "resolve_direction test_paginator ?optb = Inr (JString (lit ''backward''))"
    by code_simp
  show ?thesis
    using windowing [of test_paginator ?optf "[entity ''id-1'', entity ''id-2'', entity ''id-3'']"]
      windowing [of test_paginator ?optb "[entity ''id-8'', entity ''id-7'', entity ''id-6'']"]
      windowing [of test_paginator ?optf "[entity ''id-1'', entity ''id-2'']"]
      windowing [of test_paginator ?optb "[entity ''id-8'', entity ''id-7'']"]
      df db
    by (auto simp: literals_differ)
qed

text \<open>
  C5 at limit 2: a backward page of three entities fetched in descending order of their
  position, and a forward page.
\<close>

theorem backward_reversal_witness:
  "resolve_direction test_paginator
        \<lparr>limit = 2, cursor = Some (lit ''eyJ2IjoiaWQtOSIsImQiOiJiYWNrd2FyZCJ9''),
         defaultDirection = None\<rparr> = Inr (JString (lit ''backward''))
   \<and> (0::int) \<le> 2
   \<and> sorted_wrt (\<lambda>a b. entity_id b < entity_id a)
        (items_of [entity ''id-8'', entity ''id-7'', entity ''id-6''] 2)
   \<and> (\<exists>page.
        call_buildResult test_paginator [entity ''id-8'', entity ''id-7'', entity ''id-6'']
          \<lparr>limit = 2, cursor = Some (lit ''eyJ2IjoiaWQtOSIsImQiOiJiYWNrd2FyZCJ9''),
           defaultDirection = None\<rparr> = Inr page
      \<and> page_data page = [entity ''id-7'', entity ''id-8'']
      \<and> sorted_wrt (\<lambda>a b. entity_id a < entity_id b) (page_data page))
   \<and> resolve_direction test_paginator \<lparr>limit = 2, cursor = None, defaultDirection = None\<rparr>
       = Inr (JString (lit ''forward''))
   \<and> (\<exists>page.
        call_buildResult test_paginator [entity ''id-1'', entity ''id-2'', entity ''id-3'']
          \<lparr>limit = 2, cursor = None, defaultDirection = None\<rparr> = Inr page
      \<and> page_data page = [entity ''id-1'', entity ''id-2''])"
proof -
  let ?optf = "\<lparr>limit = 2, cursor = None, defaultDirection = None\<rparr>"
  let ?optb = "\<lparr>limit = 2, cursor = Some (lit ''eyJ2IjoiaWQtOSIsImQiOiJiYWNrd2FyZCJ9''),
                defaultDirection = None\<rparr>"
  have df: "resolve_direction test_paginator ?optf = Inr (JString (lit ''forward''))"
    by code_simp
  have db: "resolve_direction test_paginator ?optb = Inr (JString (lit ''backward''))"
    by code_simp
  have desc: "sorted_wrt (\<lambda>a b. entity_id b < entity_id a)
        (items_of [entity ''id-8'', entity ''id-7'', entity ''id-6''] 2)"
    by (simp add: items_of_prefix entity_def lit_def)
  show ?thesis
    using backward_reversal [of test_paginator ?optb
        "[entity ''id-8'', entity ''id-7'', entity ''id-6'']"
        "\<lambda>a b. entity_id a < entity_id b"]
      backward_reversal [of test_paginator ?optf
        "[entity ''id-1'', entity ''id-2'', entity ''id-3'']"]
      df db desc
    by (auto simp: literals_differ)
qed

text \<open>
  C6 at two entities, limit 20 and default direction \<^verbatim>\<open>'backward'\<close>: the batch is not
  longer than the limit, so \<^verbatim>\<open>items\<close> is the caller's array itself and
  \<^verbatim>\<open>items.reverse()\<close> reverses it in place. After the call the caller's array holds
  its elements in the opposite order.
\<close>

theorem buildResult_reverses_argument:
  "call_buildResult test_paginator [entity ''id-2'', entity ''id-1'']
      \<lparr>limit = 20, cursor = None, defaultDirection = Some Backward\<rparr>
    = Inr \<lparr>page_data = [entity ''id-1'', entity ''id-2''],
           page_meta = \<lparr>nextCursor = None, prevCursor = None, hasNextPage = False,
                        hasPrevPage = False, count = 2\<rparr>,
           entities_after = [entity ''id-1'', entity ''id-2'']\<rparr>"
  by code_simp

text \<open>
  C7 at two tokens that the schema of the value object rejects:
  \<^verbatim>\<open>eyJ2IjoieCIsImQiOiJzaWRld2F5cyJ9\<close> is \<^verbatim>\<open>{"v":"x","d":"sideways"}\<close> and makes
  the direction \<^verbatim>\<open>'sideways'\<close>; \<^verbatim>\<open>eyJkIjoiYmFja3dhcmQifQ\<close> is
  \<^verbatim>\<open>{"d":"backward"}\<close>, has no \<^verbatim>\<open>v\<close>, and makes the direction \<^verbatim>\<open>'backward'\<close>
  although the default is \<^verbatim>\<open>'forward'\<close>.
\<close>

theorem direction_from_invalid_token:
  "resolve_direction test_paginator
      \<lparr>limit = 20, cursor = Some (lit ''eyJ2IjoieCIsImQiOiJzaWRld2F5cyJ9''),
       defaultDirection = None\<rparr>
     = Inr (JString (lit ''sideways''))
   \<and> Cursor_decode (lit ''eyJ2IjoieCIsImQiOiJzaWRld2F5cyJ9'') = Inr None
   \<and> resolve_direction test_paginator
      \<lparr>limit = 20, cursor = Some (lit ''eyJkIjoiYmFja3dhcmQifQ''),
       defaultDirection = Some Forward\<rparr>
     = Inr (JString (lit ''backward''))
   \<and> Cursor_decode (lit ''eyJkIjoiYmFja3dhcmQifQ'') = Inr None"
  by code_simp

section \<open>Base64url decoding inverts encoding\<close>

text \<open>
  Two bytes are equal when their eight bits are; the six-bit groups of the encoder are
  below 64, the alphabet is inverted by the decoder, and regrouping gives the bytes back.
\<close>

lemma mask_numerals:
  "(0x03 :: 'a::len word) = mask 2" "(0x0F :: 'a::len word) = mask 4"
  "(0x3F :: 'a::len word) = mask 6"
  by (simp_all add: mask_eq_exp_minus_1)

lemma byte_eqI:
  assumes "\<And>n. n \<in> {0, 1, 2, 3, 4, 5, 6, 7} \<Longrightarrow> bit a n = bit b n"
  shows "a = (b :: byte)"
proof (rule bit_word_eqI)
  fix n assume "n < LENGTH(8)"
  then have "n \<in> {0, 1, 2, 3, 4, 5, 6, 7}" by auto
  then show "bit a n = bit b n" by (rule assms)
qed

lemma sextetI: "take_bit 6 s = s \<Longrightarrow> unat (s :: byte) < 64"
proof -
  assume "take_bit 6 s = s"
  then have "unat s = take_bit 6 (unat s)"
    by (metis unsigned_take_bit_eq)
  also have "\<dots> < 2 ^ 6" by (rule take_bit_nat_less_exp)
  finally show ?thesis by simp
qed

lemma byte_bit_high: "8 \<le> n \<Longrightarrow> bit (a :: byte) n = False"
  by (auto dest: bit_imp_le_length)

lemma groups_take_bit:
  "take_bit 6 (drop_bit 2 (a :: byte)) = drop_bit 2 a"
  "take_bit 6 (push_bit 4 (a AND 0x03) OR drop_bit 4 b) = push_bit 4 (a AND 0x03) OR drop_bit 4 b"
  "take_bit 6 (push_bit 2 (b AND 0x0F) OR drop_bit 6 c) = push_bit 2 (b AND 0x0F) OR drop_bit 6 c"
  "take_bit 6 (c AND 0x3F) = c AND 0x3F"
  "take_bit 6 (push_bit 2 (b AND 0x0F)) = push_bit 2 (b AND 0x0F)"
  "take_bit 6 (push_bit 4 (a AND 0x03)) = push_bit 4 (a AND 0x03)"
  by (rule byte_eqI; auto simp: bit_simps mask_numerals byte_bit_high)+

lemma groups_are_sextets:
  "unat (drop_bit 2 (a :: byte)) < 64"
  "unat (push_bit 4 (a AND 0x03) OR drop_bit 4 b) < 64"
  "unat (push_bit 2 (b AND 0x0F) OR drop_bit 6 c) < 64"
  "unat (c AND 0x3F) < 64"
  "unat (push_bit 2 (b AND 0x0F)) < 64"
  "unat (push_bit 4 (a AND 0x03)) < 64"
  by (rule sextetI, rule groups_take_bit)+

lemma regroup:
  "push_bit 2 (drop_bit 2 a) OR drop_bit 4 (push_bit 4 (a AND 0x03) OR drop_bit 4 b) = (a :: byte)"
  "push_bit 4 ((push_bit 4 (a AND 0x03) OR drop_bit 4 b) AND 0x0F)
     OR drop_bit 2 (push_bit 2 (b AND 0x0F) OR drop_bit 6 c) = (b :: byte)"
  "push_bit 6 ((push_bit 2 (b AND 0x0F) OR drop_bit 6 c) AND 0x03) OR (c AND 0x3F) = (c :: byte)"
  "push_bit 2 (drop_bit 2 a) OR drop_bit 4 (push_bit 4 (a AND 0x03)) = a"
  "push_bit 4 ((push_bit 4 (a AND 0x03) OR drop_bit 4 b) AND 0x0F)
     OR drop_bit 2 (push_bit 2 (b AND 0x0F)) = b"
  by (rule byte_eqI; auto simp: bit_simps mask_numerals byte_bit_high
        simp del: add_2_eq_Suc add_2_eq_Suc')+

lemma base64_bytes_groups: "base64_bytes (base64_groups bs) = bs"
  by (induction bs rule: base64_groups.induct)
     (simp_all only: base64_groups.simps base64_bytes.simps regroup)

lemma base64_value_code: "n < 64 \<Longrightarrow> base64_value (base64url_code n) = Some n"
  by (auto simp: base64_value_def base64url_code_def)

lemma base64url_code_bound: "base64url_code n < 128"
  by (auto simp: base64url_code_def)

lemma unat_of_nat16: "n < 65536 \<Longrightarrow> unat (of_nat n :: 16 word) = n"
  by (simp add: unat_of_nat)

lemma unat_of_nat8: "n < 256 \<Longrightarrow> unat (of_nat n :: byte) = n"
  by (simp add: unat_of_nat)

lemma low_byte_of_nat:
  assumes "n < 256"
  shows "unat (low_byte (of_nat n :: 16 word)) = n"
proof -
  have "unat (of_nat n :: 16 word) = n"
    using assms by (intro unat_of_nat16) simp
  moreover have "take_bit 8 n = n"
    using assms by (simp add: take_bit_nat_eq_self)
  ultimately show ?thesis
    by (simp add: low_byte_def unsigned_ucast_eq)
qed

lemma unbase64_char: "unat s < 64 \<Longrightarrow> unbase64 (base64url_char s) = Some s"
proof -
  assume s: "unat s < 64"
  have "base64url_code (unat s) < 256"
    using base64url_code_bound [of "unat s"] by simp
  then have "unat (low_byte (of_nat (base64url_code (unat s)) :: 16 word))
               = base64url_code (unat s)"
    by (rule low_byte_of_nat)
  with s show ?thesis
    by (simp add: unbase64_def base64url_char_def base64_value_code)
qed

lemma base64_sextets_chars:
  "\<forall>s \<in> set ss. unat s < 64 \<Longrightarrow> base64_sextets (map base64url_char ss) = ss"
  by (induction ss) (simp_all add: unbase64_char)

lemma base64_groups_sextets: "\<forall>s \<in> set (base64_groups bs). unat s < 64"
  by (induction bs rule: base64_groups.induct)
     (simp_all only: base64_groups.simps set_simps ball_simps groups_are_sextets simp_thms)

lemma base64url_roundtrip: "base64url_decode (base64url_encode bs) = bs"
  by (simp add: base64url_decode_def base64url_encode_def base64_sextets_chars
        base64_groups_sextets base64_bytes_groups)

section \<open>UTF-8 decoding inverts encoding on well-formed strings\<close>

text \<open>
  A code point is written in base 64 digits; with the digits named, the range checks of
  the decoder are linear arithmetic.
\<close>

lemma digits3:
  fixes cp :: nat
  obtains a b c where "cp = a * 0x1000 + b * 0x40 + c" "b < 0x40" "c < 0x40"
    "cp div 0x1000 = a" "cp div 0x40 mod 0x40 = b" "cp mod 0x40 = c"
proof -
  define c where "c = cp mod 0x40"
  define q where "q = cp div 0x40"
  define b where "b = q mod 0x40"
  define a where "a = q div 0x40"
  have 1: "cp = q * 0x40 + c" by (simp add: q_def c_def)
  have 2: "q = a * 0x40 + b" by (simp add: a_def b_def)
  have 3: "cp div 0x1000 = a"
    using div_mult2_eq [of cp "0x40" "0x40"] by (simp add: a_def q_def)
  have 4: "cp = a * 0x1000 + b * 0x40 + c"
    unfolding 1 2 by (simp add: algebra_simps)
  have 5: "b < 0x40" "c < 0x40" by (simp_all add: b_def c_def)
  have 6: "cp div 0x40 mod 0x40 = b" "cp mod 0x40 = c" by (simp_all add: b_def c_def q_def)
  show thesis
    by (rule that [OF 4 5 3 6])
qed

lemma digits4:
  fixes cp :: nat
  obtains a b c d where "cp = a * 0x40000 + b * 0x1000 + c * 0x40 + d"
    "b < 0x40" "c < 0x40" "d < 0x40"
    "cp div 0x40000 = a" "cp div 0x1000 mod 0x40 = b" "cp div 0x40 mod 0x40 = c"
    "cp mod 0x40 = d"
proof -
  obtain q c d where q: "cp = q * 0x1000 + c * 0x40 + d" "c < 0x40" "d < 0x40"
    "cp div 0x1000 = q" "cp div 0x40 mod 0x40 = c" "cp mod 0x40 = d"
    by (rule digits3)
  define b where "b = q mod 0x40"
  define a where "a = q div 0x40"
  have 2: "q = a * 0x40 + b" by (simp add: a_def b_def)
  have 3: "cp div 0x40000 = a"
    using div_mult2_eq [of cp "0x1000" "0x40"] q(4) by (simp add: a_def)
  have 4: "cp = a * 0x40000 + b * 0x1000 + c * 0x40 + d"
    unfolding q(1) 2 by (simp add: algebra_simps)
  have 5: "b < 0x40" by (simp add: b_def)
  have 6: "cp div 0x1000 mod 0x40 = b" by (simp add: q(4) b_def)
  show thesis
    by (rule that [OF 4 5 q(2) q(3) 3 6 q(5) q(6)])
qed


lemma decode_one_byte:
  "cp < 0x80 \<Longrightarrow> units_of_utf8 (utf8_of_code_point cp @ rest) = cp # units_of_utf8 rest"
  by (simp add: utf8_of_code_point_def)

lemma decode_two_bytes:
  assumes "0x80 \<le> cp" "cp < 0x800"
  shows "units_of_utf8 (utf8_of_code_point cp @ rest) = cp # units_of_utf8 rest"
proof -
  define b where "b = cp div 0x40"
  define c where "c = cp mod 0x40"
  have cp: "cp = b * 0x40 + c" and c: "c < 0x40" by (simp_all add: b_def c_def)
  have b: "2 \<le> b" "b < 32" using assms cp c by linarith+
  have enc: "utf8_of_code_point cp = [0xC0 + b, 0x80 + c]"
    using assms by (simp add: utf8_of_code_point_def b_def c_def)
  show ?thesis
    unfolding enc using b c by (simp add: is_continuation_def cp)
qed

lemma decode_three_bytes:
  assumes "0x800 \<le> cp" "cp < 0x10000" "\<not> is_high_surrogate cp" "\<not> is_low_surrogate cp"
  shows "units_of_utf8 (utf8_of_code_point cp @ rest) = cp # units_of_utf8 rest"
proof -
  obtain a b c where d: "cp = a * 0x1000 + b * 0x40 + c" "b < 0x40" "c < 0x40"
    "cp div 0x1000 = a" "cp div 0x40 mod 0x40 = b" "cp mod 0x40 = c"
    by (rule digits3)
  have a: "a < 16" using assms(2) d(1) by linarith
  have lo: "a = 0 \<Longrightarrow> 32 \<le> b" using assms(1) d(1,3) by linarith
  have hi: "a = 13 \<Longrightarrow> b < 32"
    using assms(3,4) d(1,2,3) by (simp add: is_high_surrogate_def is_low_surrogate_def)
  have enc: "utf8_of_code_point cp = [0xE0 + a, 0x80 + b, 0x80 + c]"
    using assms by (simp add: utf8_of_code_point_def d(4,5,6))
  have range: "second_lower (0xE0 + a) \<le> 0x80 + b" "0x80 + b \<le> second_upper (0xE0 + a)"
    using a lo hi d(2) by (auto simp: second_lower_def second_upper_def)
  show ?thesis
    unfolding enc using a d(2,3) range
    by (simp add: is_continuation_def d(1))
qed

lemma decode_four_bytes:
  assumes "0x10000 \<le> cp" "cp < 0x110000"
  shows "units_of_utf8 (utf8_of_code_point cp @ rest) = units_of_code_point cp @ units_of_utf8 rest"
proof -
  obtain a b c d where d: "cp = a * 0x40000 + b * 0x1000 + c * 0x40 + d"
    "b < 0x40" "c < 0x40" "d < 0x40"
    "cp div 0x40000 = a" "cp div 0x1000 mod 0x40 = b" "cp div 0x40 mod 0x40 = c"
    "cp mod 0x40 = d"
    by (rule digits4)
  have a: "a \<le> 4" using assms(2) d(1) by linarith
  have lo: "a = 0 \<Longrightarrow> 16 \<le> b" using assms(1) d(1,3,4) by linarith
  have hi: "a = 4 \<Longrightarrow> b < 16" using assms(2) d(1) by linarith
  have enc: "utf8_of_code_point cp = [0xF0 + a, 0x80 + b, 0x80 + c, 0x80 + d]"
    using assms by (simp add: utf8_of_code_point_def d(5,6,7,8))
  have range: "second_lower (0xF0 + a) \<le> 0x80 + b" "0x80 + b \<le> second_upper (0xF0 + a)"
    using a lo hi d(2) by (auto simp: second_lower_def second_upper_def)
  show ?thesis
    unfolding enc using a d(2,3,4) range
    by (simp add: is_continuation_def d(1))
qed


lemma decode_code_point:
  assumes "cp < 0x110000" "\<not> is_high_surrogate cp" "\<not> is_low_surrogate cp"
  shows "units_of_utf8 (utf8_of_code_point cp @ rest) = units_of_code_point cp @ units_of_utf8 rest"
proof -
  consider "cp < 0x80" | "0x80 \<le> cp" "cp < 0x800" | "0x800 \<le> cp" "cp < 0x10000"
    | "0x10000 \<le> cp" by linarith
  then show ?thesis
  proof cases
    case 1
    then show ?thesis by (simp add: decode_one_byte units_of_code_point_def)
  next
    case 2
    then show ?thesis by (simp add: decode_two_bytes units_of_code_point_def)
  next
    case 3
    with assms show ?thesis by (simp add: decode_three_bytes units_of_code_point_def)
  next
    case 4
    with assms show ?thesis by (simp add: decode_four_bytes)
  qed
qed

lemma surrogate_pair:
  assumes "is_high_surrogate u" "is_low_surrogate l"
  shows "units_of_code_point (0x10000 + (u - 0xD800) * 0x400 + (l - 0xDC00)) = [u, l]"
    and "0x10000 + (u - 0xD800) * 0x400 + (l - 0xDC00) < 0x110000"
    and "\<not> is_high_surrogate (0x10000 + (u - 0xD800) * 0x400 + (l - 0xDC00))"
    and "\<not> is_low_surrogate (0x10000 + (u - 0xD800) * 0x400 + (l - 0xDC00))"
proof -
  define x where "x = u - 0xD800"
  define y where "y = l - 0xDC00"
  have x: "x < 0x400" "u = 0xD800 + x" and y: "y < 0x400" "l = 0xDC00 + y"
    using assms by (auto simp: x_def y_def is_high_surrogate_def is_low_surrogate_def)
  have "(x * 0x400 + y) div 0x400 = x" "(x * 0x400 + y) mod 0x400 = y"
    using y(1) by simp_all
  then show "units_of_code_point (0x10000 + (u - 0xD800) * 0x400 + (l - 0xDC00)) = [u, l]"
    unfolding x_def [symmetric] y_def [symmetric]
    by (simp add: units_of_code_point_def x(2) y(2))
  show "0x10000 + (u - 0xD800) * 0x400 + (l - 0xDC00) < 0x110000"
    unfolding x_def [symmetric] y_def [symmetric] using x(1) y(1) by linarith
  show "\<not> is_high_surrogate (0x10000 + (u - 0xD800) * 0x400 + (l - 0xDC00))"
    "\<not> is_low_surrogate (0x10000 + (u - 0xD800) * 0x400 + (l - 0xDC00))"
    by (simp_all add: is_high_surrogate_def is_low_surrogate_def)
qed

lemma units_of_utf8_of_units:
  assumes "well_formed us" "\<forall>u \<in> set us. u < 0x10000"
  shows "units_of_utf8 (utf8_of_units us) = us"
  using assms
proof (induction us rule: utf8_of_units.induct)
  case 1
  then show ?case by simp
next
  case (2 u us)
  show ?case
  proof (cases "is_high_surrogate u")
    case True
    with "2.prems" obtain l us' where us: "us = l # us'" and l: "is_low_surrogate l"
      and wf: "well_formed us'"
      by (cases us) auto
    have "units_of_utf8 (utf8_of_units us') = us'"
      using "2.IH"(1) [OF True us l] wf "2.prems"(2) us by simp
    with True us l show ?thesis
      by (simp add: decode_code_point surrogate_pair)
  next
    case False
    with "2.prems" have low: "\<not> is_low_surrogate u" and wf: "well_formed us"
      and u: "u < 0x110000"
      by auto
    have "units_of_utf8 (utf8_of_units us) = us"
      using "2.IH"(4) [OF False low] wf "2.prems"(2) by simp
    moreover have "units_of_code_point u = [u]"
      using "2.prems"(2) by (simp add: units_of_code_point_def)
    ultimately show ?thesis
      using False low u by (simp add: decode_code_point)
  qed
qed

lemma utf8_of_code_point_bytes:
  assumes "cp < 0x110000"
  shows "\<forall>b \<in> set (utf8_of_code_point cp). b < 256"
proof -
  consider "cp < 0x80" | "0x80 \<le> cp" "cp < 0x800" | "0x800 \<le> cp" "cp < 0x10000"
    | "0x10000 \<le> cp" by linarith
  then show ?thesis
  proof cases
    case 1
    then show ?thesis by (simp add: utf8_of_code_point_def)
  next
    case 2
    have "cp div 0x40 < 32" "cp mod 0x40 < 0x40" using 2 by simp_all
    with 2 show ?thesis by (simp add: utf8_of_code_point_def)
  next
    case 3
    obtain a b c where d: "cp = a * 0x1000 + b * 0x40 + c" "b < 0x40" "c < 0x40"
      "cp div 0x1000 = a" "cp div 0x40 mod 0x40 = b" "cp mod 0x40 = c"
      by (rule digits3)
    have "a < 16" using 3(2) d(1) by linarith
    with 3 d(2,3) show ?thesis by (simp add: utf8_of_code_point_def d(4,5,6))
  next
    case 4
    obtain a b c d where d: "cp = a * 0x40000 + b * 0x1000 + c * 0x40 + d"
      "b < 0x40" "c < 0x40" "d < 0x40"
      "cp div 0x40000 = a" "cp div 0x1000 mod 0x40 = b" "cp div 0x40 mod 0x40 = c"
      "cp mod 0x40 = d"
      by (rule digits4)
    have "a \<le> 4" using assms d(1) by linarith
    with 4 d(2,3,4) show ?thesis by (simp add: utf8_of_code_point_def d(5,6,7,8))
  qed
qed

lemma utf8_of_units_bytes:
  "\<forall>u \<in> set us. u < 0x10000 \<Longrightarrow> \<forall>b \<in> set (utf8_of_units us). b < 256"
proof (induction us rule: utf8_of_units.induct)
  case 1
  then show ?case by simp
next
  case (2 u us)
  have fffd: "\<forall>b \<in> set (utf8_of_code_point 0xFFFD). b < 256"
    by (rule utf8_of_code_point_bytes) simp
  have u: "\<forall>b \<in> set (utf8_of_code_point u). b < 256"
    using "2.prems" by (intro utf8_of_code_point_bytes) simp
  show ?case
  proof (cases "is_high_surrogate u")
    case True
    show ?thesis
    proof (cases us)
      case Nil
      with True fffd show ?thesis by simp
    next
      case (Cons l us')
      show ?thesis
      proof (cases "is_low_surrogate l")
        case low: True
        have "\<forall>b \<in> set (utf8_of_units us'). b < 256"
          using "2.IH"(1) [OF True Cons low] "2.prems" Cons by simp
        moreover have "\<forall>b \<in> set (utf8_of_code_point
            (0x10000 + (u - 0xD800) * 0x400 + (l - 0xDC00))). b < 256"
          by (rule utf8_of_code_point_bytes) (rule surrogate_pair(2) [OF True low])
        ultimately show ?thesis using True Cons low by auto
      next
        case nlow: False
        have "\<forall>b \<in> set (utf8_of_units us). b < 256"
          using "2.IH"(2) [OF True Cons nlow] "2.prems" by simp
        with True Cons nlow fffd show ?thesis by auto
      qed
    qed
  next
    case False
    show ?thesis
    proof (cases "is_low_surrogate u")
      case True
      have "\<forall>b \<in> set (utf8_of_units us). b < 256"
        using "2.IH"(3) [OF False True] "2.prems" by simp
      with False True fffd show ?thesis by auto
    next
      case nlow: False
      have "\<forall>b \<in> set (utf8_of_units us). b < 256"
        using "2.IH"(4) [OF False nlow] "2.prems" by simp
      with False nlow u show ?thesis by auto
    qed
  qed
qed

lemma map_unat_of_nat8: "\<forall>b \<in> set bs. b < 256 \<Longrightarrow> map unat (map of_nat bs :: byte list) = bs"
  by (induction bs) (simp_all add: unat_of_nat8)

lemma units_below: "\<forall>u \<in> set (map unat (s :: jsstring)). u < 0x10000"
proof
  fix u assume "u \<in> set (map unat s)"
  then obtain w :: "16 word" where "u = unat w" by auto
  then show "u < 0x10000" using unsigned_less [of w, where ?'a = nat] by simp
qed

lemma utf8_roundtrip:
  assumes "well_formed (map unat s)"
  shows "utf8_decode (utf8_encode s) = s"
proof -
  have "map unat (map of_nat (utf8_of_units (map unat s)) :: byte list)
          = utf8_of_units (map unat s)"
    by (intro map_unat_of_nat8 utf8_of_units_bytes units_below)
  then have "utf8_decode (utf8_encode s) = map of_nat (units_of_utf8 (utf8_of_units (map unat s)))"
    by (simp add: utf8_decode_def utf8_encode_def)
  also have "\<dots> = map of_nat (map unat s)"
    by (simp add: units_of_utf8_of_units [OF assms units_below])
  also have "\<dots> = s"
    by (simp add: map_idI)
  finally show ?thesis .
qed

section \<open>\<^verbatim>\<open>JSON.parse\<close> inverts \<^verbatim>\<open>JSON.stringify\<close>\<close>

text \<open>
  The four hex digits of an escape give the code unit back, so \<open>scan_string\<close> reads
  exactly the string that \<open>quote_chars\<close> wrote.
\<close>



lemma hex_digits:
  fixes x :: nat
  assumes "x < 0x10000"
  shows "((x div 0x1000 mod 0x10 * 0x10 + x div 0x100 mod 0x10) * 0x10 + x div 0x10 mod 0x10) * 0x10
           + x mod 0x10 = x"
proof -
  define q1 where "q1 = x div 0x10"
  define q2 where "q2 = q1 div 0x10"
  define q3 where "q3 = q2 div 0x10"
  define r0 where "r0 = x mod 0x10"
  define r1 where "r1 = q1 mod 0x10"
  define r2 where "r2 = q2 mod 0x10"
  have 1: "x = q1 * 0x10 + r0" by (simp add: q1_def r0_def)
  have 2: "q1 = q2 * 0x10 + r1" by (simp add: q2_def r1_def)
  have 3: "q2 = q3 * 0x10 + r2" by (simp add: q3_def r2_def)
  have d2: "x div 0x100 = q2"
    using div_mult2_eq [of x "0x10" "0x10"] by (simp add: q1_def q2_def)
  have d3: "x div 0x1000 = q3"
    using div_mult2_eq [of x "0x100" "0x10"] d2 by (simp add: q3_def)
  have e: "x = q3 * 0x1000 + r2 * 0x100 + r1 * 0x10 + r0"
    using 1 2 3 by linarith
  with assms have "q3 < 0x10" by linarith
  then have m3: "q3 mod 0x10 = q3" by simp
  have "((q3 * 0x10 + r2) * 0x10 + r1) * 0x10 + r0 = x"
    unfolding e by (simp add: algebra_simps)
  then show ?thesis
    by (simp add: d2 d3 m3 flip: q1_def r0_def r1_def r2_def)
qed

lemma hex_value_digit: "n < 16 \<Longrightarrow> hex_value (hex_digit n) = Some n"
proof -
  assume n: "n < 16"
  have "unat (of_nat (if n < 10 then 0x30 + n else 0x61 + (n - 10)) :: 16 word)
          = (if n < 10 then 0x30 + n else 0x61 + (n - 10))"
    using n by (intro unat_of_nat16) simp
  with n show ?thesis
    by (auto simp: hex_value_def hex_digit_def Let_def)
qed

lemma hex4_escape:
  "hex4 (hex_digit (unat u div 0x1000 mod 0x10)) (hex_digit (unat u div 0x100 mod 0x10))
        (hex_digit (unat u div 0x10 mod 0x10)) (hex_digit (unat u mod 0x10)) = Some u"
proof -
  have "unat u < 0x10000" using unsigned_less [of u, where ?'a = nat] by simp
  then have "((unat u div 0x1000 mod 0x10 * 0x10 + unat u div 0x100 mod 0x10) * 0x10
                + unat u div 0x10 mod 0x10) * 0x10 + unat u mod 0x10 = unat u"
    by (rule hex_digits)
  then have "of_nat (((unat u div 0x1000 mod 0x10 * 0x10 + unat u div 0x100 mod 0x10) * 0x10
                + unat u div 0x10 mod 0x10) * 0x10 + unat u mod 0x10) = u"
    by (simp only: of_nat_unat ucast_id)
  moreover have "hex_value (hex_digit (unat u div 0x1000 mod 0x10)) = Some (unat u div 0x1000 mod 0x10)"
    "hex_value (hex_digit (unat u div 0x100 mod 0x10)) = Some (unat u div 0x100 mod 0x10)"
    "hex_value (hex_digit (unat u div 0x10 mod 0x10)) = Some (unat u div 0x10 mod 0x10)"
    "hex_value (hex_digit (unat u mod 0x10)) = Some (unat u mod 0x10)"
    by (rule hex_value_digit, simp)+
  ultimately show ?thesis
    by (simp only: hex4_def prod.case option.case)
qed


lemma scan_unicode_escape:
  "scan_string (unicode_escape u @ tail) =
     (case scan_string tail of None \<Rightarrow> None | Some (s, rest) \<Rightarrow> Some (u # s, rest))"
  by (simp add: unicode_escape_def hex4_escape)

lemma scan_plain:
  "c \<noteq> 0x22 \<Longrightarrow> c \<noteq> 0x5C \<Longrightarrow> \<not> c < 0x20 \<Longrightarrow>
   scan_string (c # tail) =
     (case scan_string tail of None \<Rightarrow> None | Some (s, rest) \<Rightarrow> Some (c # s, rest))"
  by simp

lemma surrogate_plain:
  assumes "high_surrogate c \<or> low_surrogate c"
  shows "c \<noteq> 0x22" "c \<noteq> 0x5C" "\<not> c < 0x20"
  using assms
  by (auto simp: high_surrogate_def low_surrogate_def is_high_surrogate_def
        is_low_surrogate_def word_less_nat_alt)

lemma scan_quote_chars: "scan_string (quote_chars s @ 0x22 # rest) = Some (s, rest)"
proof (induction "length s" arbitrary: s rule: less_induct)
  case less
  show ?case
  proof (cases s)
    case Nil
    then show ?thesis by simp
  next
    case (Cons u us)
    have ih: "scan_string (quote_chars us @ 0x22 # rest) = Some (us, rest)"
      using less [of us] Cons by simp
    consider (short) "u = 0x08 \<or> u = 0x09 \<or> u = 0x0A \<or> u = 0x0C \<or> u = 0x0D \<or> u = 0x22 \<or> u = 0x5C"
      | (control) "\<not> (u = 0x08 \<or> u = 0x09 \<or> u = 0x0A \<or> u = 0x0C \<or> u = 0x0D \<or> u = 0x22 \<or> u = 0x5C)"
          "u < 0x20"
      | (high) "\<not> (u = 0x08 \<or> u = 0x09 \<or> u = 0x0A \<or> u = 0x0C \<or> u = 0x0D \<or> u = 0x22 \<or> u = 0x5C)"
          "\<not> u < 0x20" "high_surrogate u"
      | (low) "\<not> (u = 0x08 \<or> u = 0x09 \<or> u = 0x0A \<or> u = 0x0C \<or> u = 0x0D \<or> u = 0x22 \<or> u = 0x5C)"
          "\<not> u < 0x20" "\<not> high_surrogate u" "low_surrogate u"
      | (plain) "\<not> (u = 0x08 \<or> u = 0x09 \<or> u = 0x0A \<or> u = 0x0C \<or> u = 0x0D \<or> u = 0x22 \<or> u = 0x5C)"
          "\<not> u < 0x20" "\<not> high_surrogate u" "\<not> low_surrogate u"
      by blast
    then show ?thesis
    proof cases
      case short
      then show ?thesis
        unfolding Cons using ih by (elim disjE) (simp_all add: unescape_def)
    next
      case control
      then show ?thesis
        unfolding Cons using ih by (simp add: scan_unicode_escape)
    next
      case high
      show ?thesis
      proof (cases us)
        case Nil
        with high show ?thesis
          unfolding Cons by (simp add: scan_unicode_escape)
      next
        case us: (Cons l us')
        show ?thesis
        proof (cases "low_surrogate l")
          case True
          have "scan_string (quote_chars us' @ 0x22 # rest) = Some (us', rest)"
            using less [of us'] Cons us by simp
          with high True surrogate_plain [of u] surrogate_plain [of l] show ?thesis
            unfolding Cons us by simp
        next
          case False
          with high ih show ?thesis
            unfolding Cons us by (simp add: scan_unicode_escape)
        qed
      qed
    next
      case low
      then show ?thesis
        unfolding Cons using ih by (simp add: scan_unicode_escape)
    next
      case plain
      then show ?thesis
        unfolding Cons using ih by simp
    qed
  qed
qed


lemma tokenize_string:
  "tokenize (QuoteJSONString s @ rest) = push_token (TString s) (tokenize rest)"
  by (simp add: QuoteJSONString_def scan_quote_chars is_whitespace_def)

lemma tokenize_punctuation:
  "tokenize (0x7B # rest) = push_token TLBrace (tokenize rest)"
  "tokenize (0x7D # rest) = push_token TRBrace (tokenize rest)"
  "tokenize (0x3A # rest) = push_token TColon (tokenize rest)"
  "tokenize (0x2C # rest) = push_token TComma (tokenize rest)"
  by (simp_all add: is_whitespace_def)

lemma tokenize_stringify:
  "tokenize (JSON_stringify [(k1, v1), (k2, v2)]) =
     Some [TLBrace, TString k1, TColon, TString v1, TComma, TString k2, TColon, TString v2, TRBrace]"
proof -
  have "JSON_stringify [(k1, v1), (k2, v2)] =
      0x7B # (QuoteJSONString k1 @ 0x3A # (QuoteJSONString v1 @ 0x2C #
        (QuoteJSONString k2 @ 0x3A # (QuoteJSONString v2 @ [0x7D]))))"
    by (simp add: JSON_stringify_def)
  then show ?thesis
    by (simp only: tokenize_punctuation tokenize_string tokenize.simps(1) push_token_def
          option.case)
qed

lemma parse_stringify:
  "JSON_parse (JSON_stringify [(k1, v1), (k2, v2)]) =
     Inr (JObject [(k1, JString v1), (k2, JString v2)])"
  by (simp add: JSON_parse_def tokenize_stringify begin_value_def)


section \<open>The payload is well-formed UTF-16\<close>

text \<open>
  \<^verbatim>\<open>JSON.stringify\<close> escapes every lone surrogate, so the text handed to the UTF-8
  encoder has none.
\<close>

lemma well_formed_append: "well_formed xs \<Longrightarrow> well_formed ys \<Longrightarrow> well_formed (xs @ ys)"
  by (induction xs rule: well_formed.induct) (auto split: list.splits)

lemma well_formed_ascii: "\<forall>u \<in> set us. u < 0x80 \<Longrightarrow> well_formed us"
  by (induction us) (simp_all add: is_high_surrogate_def is_low_surrogate_def)

lemma hex_digit_ascii: "n < 16 \<Longrightarrow> unat (hex_digit n) < 0x80"
proof -
  assume n: "n < 16"
  have "unat (of_nat (if n < 10 then 0x30 + n else 0x61 + (n - 10)) :: 16 word)
          = (if n < 10 then 0x30 + n else 0x61 + (n - 10))"
    using n by (intro unat_of_nat16) simp
  with n show ?thesis by (simp add: hex_digit_def)
qed

lemma well_formed_escape: "well_formed (map unat (unicode_escape u))"
  by (rule well_formed_ascii) (simp add: unicode_escape_def hex_digit_ascii)

lemma well_formed_quote_chars: "well_formed (map unat (quote_chars s))"
proof (induction "length s" arbitrary: s rule: less_induct)
  case less
  show ?case
  proof (cases s)
    case Nil
    then show ?thesis by simp
  next
    case (Cons u us)
    have ih: "well_formed (map unat (quote_chars us))"
      using less [of us] Cons by simp
    have esc: "well_formed (map unat (unicode_escape u @ quote_chars us))"
      using ih by (simp add: well_formed_append well_formed_escape)
    have two: "well_formed (map unat ([0x5C, e] @ quote_chars us))" if "unat e < 0x80" for e
    proof -
      have "well_formed (map unat [0x5C, e])"
        by (rule well_formed_ascii) (simp add: that)
      from well_formed_append [OF this ih] show ?thesis by simp
    qed
    consider (short) "u = 0x08 \<or> u = 0x09 \<or> u = 0x0A \<or> u = 0x0C \<or> u = 0x0D \<or> u = 0x22 \<or> u = 0x5C"
      | (control) "\<not> (u = 0x08 \<or> u = 0x09 \<or> u = 0x0A \<or> u = 0x0C \<or> u = 0x0D \<or> u = 0x22 \<or> u = 0x5C)"
          "u < 0x20"
      | (high) "\<not> (u = 0x08 \<or> u = 0x09 \<or> u = 0x0A \<or> u = 0x0C \<or> u = 0x0D \<or> u = 0x22 \<or> u = 0x5C)"
          "\<not> u < 0x20" "high_surrogate u"
      | (low) "\<not> (u = 0x08 \<or> u = 0x09 \<or> u = 0x0A \<or> u = 0x0C \<or> u = 0x0D \<or> u = 0x22 \<or> u = 0x5C)"
          "\<not> u < 0x20" "\<not> high_surrogate u" "low_surrogate u"
      | (plain) "\<not> (u = 0x08 \<or> u = 0x09 \<or> u = 0x0A \<or> u = 0x0C \<or> u = 0x0D \<or> u = 0x22 \<or> u = 0x5C)"
          "\<not> u < 0x20" "\<not> high_surrogate u" "\<not> low_surrogate u"
      by blast
    then show ?thesis
    proof cases
      case short
      then show ?thesis
        unfolding Cons
        using two [of "0x62"] two [of "0x74"] two [of "0x6E"] two [of "0x66"]
          two [of "0x72"] two [of "0x22"] two [of "0x5C"]
        by (elim disjE) simp_all
    next
      case control
      then show ?thesis
        unfolding Cons using esc by simp
    next
      case high
      show ?thesis
      proof (cases us)
        case Nil
        with high show ?thesis
          unfolding Cons by (simp add: well_formed_escape)
      next
        case us: (Cons l us')
        show ?thesis
        proof (cases "low_surrogate l")
          case True
          have "well_formed (map unat (quote_chars us'))"
            using less [of us'] Cons us by simp
          with high True show ?thesis
            unfolding Cons us by (simp add: high_surrogate_def low_surrogate_def)
        next
          case False
          with high esc show ?thesis
            unfolding Cons us by simp
        qed
      qed
    next
      case low
      then show ?thesis
        unfolding Cons using esc by simp
    next
      case plain
      then show ?thesis
        unfolding Cons using ih by (simp add: high_surrogate_def low_surrogate_def)
    qed
  qed
qed

lemma well_formed_quoted: "well_formed (map unat (QuoteJSONString s))"
proof -
  have q: "well_formed (map unat [0x22 :: 16 word])"
    by (rule well_formed_ascii) simp
  show ?thesis
    unfolding QuoteJSONString_def map_append
    by (intro well_formed_append well_formed_quote_chars q)
qed

lemma well_formed_stringify: "well_formed (map unat (JSON_stringify [(k1, v1), (k2, v2)]))"
proof -
  have "JSON_stringify [(k1, v1), (k2, v2)] =
      [0x7B] @ QuoteJSONString k1 @ [0x3A] @ QuoteJSONString v1 @ [0x2C] @
        QuoteJSONString k2 @ [0x3A] @ QuoteJSONString v2 @ [0x7D]"
    by (simp add: JSON_stringify_def)
  moreover have "well_formed (map unat [0x7B :: 16 word])"
    "well_formed (map unat [0x3A :: 16 word])"
    "well_formed (map unat [0x2C :: 16 word])" "well_formed (map unat [0x7D :: 16 word])"
    by (rule well_formed_ascii, simp)+
  ultimately show ?thesis
    by (simp only: map_append) (intro well_formed_append well_formed_quoted)
qed

section \<open>The round trip of the codec\<close>

lemma payload_roundtrip:
  "JSON_parse (utf8_decode (base64url_decode (base64url_encode (utf8_encode
      (JSON_stringify [(k1, v1), (k2, v2)]))))) =
     Inr (JObject [(k1, JString v1), (k2, JString v2)])"
  by (simp add: base64url_roundtrip utf8_roundtrip well_formed_stringify parse_stringify)

lemma key_literals: "lit ''v'' \<noteq> lit ''d''" "lit ''d'' \<noteq> lit ''v''"
  by (simp_all add: lit_def)

text \<open>
  For any strategy: if \<^verbatim>\<open>deserialize\<close> accepts what \<^verbatim>\<open>serialize\<close> wrote, decoding
  an encoded cursor returns what \<^verbatim>\<open>deserialize\<close> made of it, and the direction.
\<close>

lemma roundtrip_strategy:
  assumes "deserializeCursor p (JString (serializeCursor p v)) = Inr v'"
  shows "decode p (encode p v d)
           = Inr (Some \<lparr>decoded_value = v', decoded_direction = JString (direction_literal d)\<rparr>)"
  using assms
  by (simp add: decode_def decode_body_def encode_def payload_roundtrip own_property_def
        key_literals)

text \<open>
  The tokens of the model are the tokens of Node: \<^verbatim>\<open>encode('id-1', 'backward')\<close> is
  \<^verbatim>\<open>eyJ2IjoiaWQtMSIsImQiOiJiYWNrd2FyZCJ9\<close>.
\<close>

lemma encode_example:
  "encode test_paginator (lit ''id-1'') Backward = lit ''eyJ2IjoiaWQtMSIsImQiOiJiYWNrd2FyZCJ9''"
proof -
  let ?payload = "[123, 34, 118, 34, 58, 34, 105, 100, 45, 49, 34, 44, 34, 100, 34, 58, 34,
                   98, 97, 99, 107, 119, 97, 114, 100, 34, 125]"
  have "JSON_stringify [(lit ''v'', lit ''id-1''), (lit ''d'', lit ''backward'')] = ?payload"
    by (simp add: JSON_stringify_def QuoteJSONString_def lit_def high_surrogate_def
          low_surrogate_def is_high_surrogate_def is_low_surrogate_def)
  moreover have "utf8_encode ?payload = ?payload"
    by (simp add: utf8_encode_def utf8_of_code_point_def is_high_surrogate_def
          is_low_surrogate_def)
  moreover have "base64url_encode ?payload = lit ''eyJ2IjoiaWQtMSIsImQiOiJiYWNrd2FyZCJ9''"
    by (simp add: base64url_encode_def base64url_char_def base64url_code_def lit_def)
  ultimately show ?thesis
    by (simp add: encode_def test_paginator_def createIdPaginator_def direction_literal_def)
qed

text \<open>
  C1 (round trip). With the identity strategy of \<^verbatim>\<open>createIdPaginator\<close>, for every
  string \<open>v\<close> (every sequence of code units, lone surrogates included) and both
  directions, \<^verbatim>\<open>decode(encode(v, d))\<close> returns a cursor with value \<open>v\<close> and
  direction \<open>d\<close>; and \<^verbatim>\<open>Cursor.decode\<close> gives back every cursor that
  \<^verbatim>\<open>Cursor.encode\<close> wrote.
\<close>

theorem codec_roundtrip:
  "decode (createIdPaginator id_of) (encode (createIdPaginator id_of) v d)
     = Inr (Some \<lparr>decoded_value = JString v, decoded_direction = JString (direction_literal d)\<rparr>)
   \<and> Cursor_decode (Cursor_encode \<lparr>cursor_value = v, cursor_direction = d\<rparr>)
     = Inr (Some \<lparr>cursor_value = v, cursor_direction = d\<rparr>)"
proof
  show "decode (createIdPaginator id_of) (encode (createIdPaginator id_of) v d)
     = Inr (Some \<lparr>decoded_value = JString v, decoded_direction = JString (direction_literal d)\<rparr>)"
    by (simp add: decode_def decode_body_def encode_def createIdPaginator_def payload_roundtrip
          own_property_def key_literals)
  show "Cursor_decode (Cursor_encode \<lparr>cursor_value = v, cursor_direction = d\<rparr>)
     = Inr (Some \<lparr>cursor_value = v, cursor_direction = d\<rparr>)"
    by (cases d)
       (simp_all add: Cursor_decode_def Cursor_decode_body_def Cursor_encode_def
          payload_roundtrip cursorPayloadSchema_parse_def own_property_def key_literals
          direction_literal_def literals_differ)
qed

section \<open>The codec on concrete tokens\<close>

text \<open>
  C2 at four tokens whose payload is JSON: \<^verbatim>\<open>e30\<close> is \<^verbatim>\<open>{}\<close>,
  \<^verbatim>\<open>eyJkIjoiYmFja3dhcmQifQ\<close> is \<^verbatim>\<open>{"d":"backward"}\<close>, \<^verbatim>\<open>eyJ2IjoieCJ9\<close> is
  \<^verbatim>\<open>{"v":"x"}\<close> and \<^verbatim>\<open>eyJ2IjoieCIsImQiOiJzaWRld2F5cyJ9\<close> is
  \<^verbatim>\<open>{"v":"x","d":"sideways"}\<close>. \<^verbatim>\<open>CursorPaginator.decode\<close> returns a cursor for
  each of them.
\<close>

theorem decode_accepts_invalid_payloads:
  "decode test_paginator (lit ''e30'')
     = Inr (Some \<lparr>decoded_value = JUndefined, decoded_direction = JUndefined\<rparr>)
   \<and> decode test_paginator (lit ''eyJkIjoiYmFja3dhcmQifQ'')
     = Inr (Some \<lparr>decoded_value = JUndefined, decoded_direction = JString (lit ''backward'')\<rparr>)
   \<and> decode test_paginator (lit ''eyJ2IjoieCJ9'')
     = Inr (Some \<lparr>decoded_value = JString (lit ''x''), decoded_direction = JUndefined\<rparr>)
   \<and> decode test_paginator (lit ''eyJ2IjoieCIsImQiOiJzaWRld2F5cyJ9'')
     = Inr (Some \<lparr>decoded_value = JString (lit ''x''),
                  decoded_direction = JString (lit ''sideways'')\<rparr>)"
  by code_simp

text \<open>The value object's \<^verbatim>\<open>Cursor.decode\<close> rejects the same four tokens.\<close>

lemma Cursor_decode_rejects_invalid_payloads:
  "Cursor_decode (lit ''e30'') = Inr None
   \<and> Cursor_decode (lit ''eyJkIjoiYmFja3dhcmQifQ'') = Inr None
   \<and> Cursor_decode (lit ''eyJ2IjoieCJ9'') = Inr None
   \<and> Cursor_decode (lit ''eyJ2IjoieCIsImQiOiJzaWRld2F5cyJ9'') = Inr None"
  by code_simp

text \<open>
  What the schema guarantees for every token: a cursor comes back only from a payload
  that is an object with a string \<^verbatim>\<open>v\<close> and a \<^verbatim>\<open>d\<close> equal to one of the two
  literals.
\<close>

lemma Cursor_decode_validates:
  assumes "Cursor_decode token = Inr (Some c)"
  shows "\<exists>members.
           JSON_parse (utf8_decode (base64url_decode token)) = Inr (JObject members)
         \<and> own_property members (lit ''v'') = JString (cursor_value c)
         \<and> own_property members (lit ''d'') = JString (direction_literal (cursor_direction c))"
  using assms
  by (auto simp: Cursor_decode_def Cursor_decode_body_def cursorPayloadSchema_parse_def
        direction_literal_def
      split: sum.splits jsval.splits if_splits)

text \<open>
  The decoder reads the low byte of each code unit: the code units U+0165, U+0133 and
  U+0130 decode like \<^verbatim>\<open>e30\<close>, and U+013D ends the input like \<^verbatim>\<open>=\<close>.
\<close>

lemma base64url_decode_low_byte:
  "base64url_decode [0x0165, 0x0133, 0x0130] = [0x7B, 0x7D]
   \<and> base64url_decode [0x65, 0x33, 0x30, 0x013D, 0x65, 0x33, 0x30] = [0x7B, 0x7D]"
  by code_simp

text \<open>
  Three strings that are no token: the empty string, one with characters outside the
  alphabet (its bytes are not UTF-8 either), and the base64url form of \<^verbatim>\<open>hello\<close>.
\<close>

lemma payload_of_empty: "JSON_parse (utf8_decode (base64url_decode [])) = Inl SyntaxError"
  by code_simp

lemma payload_of_not_valid:
  "JSON_parse (utf8_decode (base64url_decode (lit ''not-valid-base64!!''))) = Inl SyntaxError"
proof -
  have "base64url_decode (lit ''not-valid-base64!!'')
          = [158, 139, 126, 189, 169, 98, 119, 230, 218, 177, 238, 184]"
    by code_simp
  moreover have "utf8_decode [158, 139, 126, 189, 169, 98, 119, 230, 218, 177, 238, 184]
          = [65533, 65533, 126, 65533, 65533, 98, 119, 65533, 1713, 65533]"
    by (simp add: utf8_decode_def is_continuation_def second_lower_def second_upper_def)
  moreover have "JSON_parse [65533, 65533, 126, 65533, 65533, 98, 119, 65533, 1713, 65533]
          = Inl SyntaxError"
    by (simp add: JSON_parse_def is_whitespace_def is_digit_def)
  ultimately show ?thesis by simp
qed

lemma payload_of_hello:
  "JSON_parse (utf8_decode (base64url_decode (lit ''aGVsbG8''))) = Inl SyntaxError"
  by code_simp

lemma payload_of_null:
  "JSON_parse (utf8_decode (base64url_decode (lit ''bnVsbA''))) = Inr JNull"
  by code_simp

lemma decode_unparsable:
  "JSON_parse (utf8_decode (base64url_decode token)) = Inl e \<Longrightarrow> decode p token = Inr None"
  by (simp add: decode_def decode_body_def)

lemma decode_null_payload:
  "JSON_parse (utf8_decode (base64url_decode token)) = Inr JNull \<Longrightarrow> decode p token = Inr None"
  by (simp add: decode_def decode_body_def)

lemma Cursor_decode_unparsable:
  "JSON_parse (utf8_decode (base64url_decode token)) = Inl e \<Longrightarrow> Cursor_decode token = Inr None"
  by (simp add: Cursor_decode_def Cursor_decode_body_def)

text \<open>
  A strategy whose \<^verbatim>\<open>deserialize\<close> throws on the value of a well-formed token
  (\<^verbatim>\<open>eyJ2IjoiaWQtMSIsImQiOiJmb3J3YXJkIn0\<close> is \<^verbatim>\<open>{"v":"id-1","d":"forward"}\<close>).
\<close>

lemma decode_failing_strategy:
  "decode \<lparr>cursorKey = entity_id, serializeCursor = (\<lambda>v. v),
           deserializeCursor = (\<lambda>v. Inl StrategyError :: exn + jsval)\<rparr>
      (lit ''eyJ2IjoiaWQtMSIsImQiOiJmb3J3YXJkIn0'') = Inr None"
  by code_simp

text \<open>
  C8 (decode never raises). For every paginator and every string, \<^verbatim>\<open>decode\<close> returns:
  no exception leaves it, whatever the \<^verbatim>\<open>try\<close> block throws (\<^verbatim>\<open>SyntaxError\<close> from
  \<^verbatim>\<open>JSON.parse\<close>, \<^verbatim>\<open>TypeError\<close> from reading a property of \<^verbatim>\<open>null\<close>, an exception
  of the deserialization strategy). The same holds for \<^verbatim>\<open>Cursor.decode\<close>. On the empty
  string, on \<^verbatim>\<open>not-valid-base64!!\<close>, on valid base64url of text that is not JSON
  (\<^verbatim>\<open>aGVsbG8\<close>) and on the payload \<^verbatim>\<open>null\<close> (\<^verbatim>\<open>bnVsbA\<close>) both return
  \<^verbatim>\<open>null\<close>.
\<close>

theorem decode_never_raises:
  "(\<exists>r. decode p token = Inr r)
   \<and> (\<exists>r. Cursor_decode token = Inr r)
   \<and> decode p [] = Inr None
   \<and> decode p (lit ''not-valid-base64!!'') = Inr None
   \<and> decode p (lit ''aGVsbG8'') = Inr None
   \<and> decode p (lit ''bnVsbA'') = Inr None
   \<and> Cursor_decode [] = Inr None
   \<and> Cursor_decode (lit ''not-valid-base64!!'') = Inr None
   \<and> Cursor_decode (lit ''aGVsbG8'') = Inr None
   \<and> Cursor_decode (lit ''bnVsbA'') = Inr None"
proof (intro conjI)
  show "\<exists>r. decode p token = Inr r"
    by (simp add: decode_def split: sum.split)
  show "\<exists>r. Cursor_decode token = Inr r"
    by (simp add: Cursor_decode_def split: sum.split)
  show "decode p [] = Inr None"
    by (rule decode_unparsable [OF payload_of_empty])
  show "decode p (lit ''not-valid-base64!!'') = Inr None"
    by (rule decode_unparsable [OF payload_of_not_valid])
  show "decode p (lit ''aGVsbG8'') = Inr None"
    by (rule decode_unparsable [OF payload_of_hello])
  show "decode p (lit ''bnVsbA'') = Inr None"
    by (rule decode_null_payload [OF payload_of_null])
  show "Cursor_decode [] = Inr None"
    by (rule Cursor_decode_unparsable [OF payload_of_empty])
  show "Cursor_decode (lit ''not-valid-base64!!'') = Inr None"
    by (rule Cursor_decode_unparsable [OF payload_of_not_valid])
  show "Cursor_decode (lit ''aGVsbG8'') = Inr None"
    by (rule Cursor_decode_unparsable [OF payload_of_hello])
  show "Cursor_decode (lit ''bnVsbA'') = Inr None"
    by code_simp
qed

end
